theory Spec2Isabelle
  imports Main "HOL-Library.Word"
begin

unbundle bit_operations_syntax

text \<open>
  The field-level encryption of OrgSend: the cipher engine (\<open>crypto.ts\<close>), the digest
  engine (\<open>hash.ts\<close>), the key cache (\<open>keys.ts\<close>), the test double (\<open>mock.ts\<close>) and
  the layer that rewrites records on their way to and from the persistence backend
  (\<open>client-extension.ts\<close>), as functions of HOL, followed by the properties proved of
  them. What the runtime supplies (text encodings, base64, SHA-256, random bytes, the
  clock) is modelled first; the case mapping of Unicode stands with the digest engine,
  which lower-cases its input.
\<close>

section \<open>Platform values: bytes, JavaScript strings, errors, randomness\<close>

text \<open>
  A \<open>Buffer\<close> or \<open>Uint8Array\<close> is a list of bytes. A JavaScript string is a list of
  UTF-16 code units. String literals of the source are ASCII and are written with \<open>js\<close>.
\<close>

type_synonym byte = "8 word"
type_synonym jschar = "16 word"
type_synonym jsstring = "jschar list"

definition js :: "string \<Rightarrow> jsstring" where
  "js s = map of_char s"

text \<open>
  The error classes of \<open>types.ts\<close>, the plain \<open>Error\<close> thrown by \<open>hash.ts\<close> and the
  \<open>TypeError\<close> of the runtime. The message is kept as the fixed part of the source's
  message; a batch error carries the two interpolated numbers.
\<close>

datatype failure =
    Message string
  | BatchSize nat nat

datatype error =
    EncryptionError failure
  | DecryptionError failure
  | KeyRetrievalError failure
  | Error failure
  | TypeError failure

text \<open>
  The values that reach this code where the source types a parameter as \<open>any\<close> or
  guards it with \<open>typeof\<close>: the primitives of JavaScript. \<open>Num\<close> stands for the
  integer-valued numbers; nested objects and arrays are not represented.
\<close>

datatype jsval = Undefined | Null | Bool bool | Num int | Str jsstring

text \<open>\<open>!v\<close> for a primitive.\<close>

fun falsy :: "jsval \<Rightarrow> bool" where
  "falsy Undefined = True"
| "falsy Null = True"
| "falsy (Bool b) = (\<not> b)"
| "falsy (Num n) = (n = 0)"
| "falsy (Str s) = (s = [])"

text \<open>
  \<open>randomBytes(n)\<close> of \<open>node:crypto\<close>: the generator is an unknown tape of bytes; a call
  reads the next \<open>n\<close> bytes and leaves the rest of the tape.
\<close>

type_synonym rng = "nat \<Rightarrow> byte"

definition randomBytes :: "nat \<Rightarrow> rng \<Rightarrow> byte list \<times> rng" where
  "randomBytes n g = (map g [0..<n], \<lambda>i. g (i + n))"

section \<open>UTF-16 and UTF-8\<close>

definition is_high_surrogate :: "jschar \<Rightarrow> bool" where
  "is_high_surrogate u \<longleftrightarrow> 0xD800 \<le> unat u \<and> unat u \<le> 0xDBFF"

definition is_low_surrogate :: "jschar \<Rightarrow> bool" where
  "is_low_surrogate u \<longleftrightarrow> 0xDC00 \<le> unat u \<and> unat u \<le> 0xDFFF"

text \<open>
  The scalar values of a string (conversion to a \<open>USVString\<close>): a surrogate pair is one
  code point, an unpaired surrogate becomes U+FFFD.
\<close>

fun scalars :: "jsstring \<Rightarrow> nat list" where
  "scalars [] = []"
| "scalars [u] = [if is_high_surrogate u \<or> is_low_surrogate u then 0xFFFD else unat u]"
| "scalars (u # v # r) =
     (if is_high_surrogate u \<and> is_low_surrogate v
      then (0x10000 + (unat u - 0xD800) * 0x400 + (unat v - 0xDC00)) # scalars r
      else (if is_high_surrogate u \<or> is_low_surrogate u then 0xFFFD else unat u)
           # scalars (v # r))"

definition utf8_encode_cp :: "nat \<Rightarrow> byte list" where
  "utf8_encode_cp c =
     (if c < 0x80 then [of_nat c]
      else if c < 0x800 then [of_nat (0xC0 + c div 0x40), of_nat (0x80 + c mod 0x40)]
      else if c < 0x10000 then
        [of_nat (0xE0 + c div 0x1000), of_nat (0x80 + c div 0x40 mod 0x40),
         of_nat (0x80 + c mod 0x40)]
      else
        [of_nat (0xF0 + c div 0x40000), of_nat (0x80 + c div 0x1000 mod 0x40),
         of_nat (0x80 + c div 0x40 mod 0x40), of_nat (0x80 + c mod 0x40)])"

text \<open>\<open>new TextEncoder().encode(s)\<close>, also the bytes of \<open>Buffer.from(s)\<close> and of
  \<open>hash.update(s, "utf8")\<close>.\<close>

definition utf8_encode :: "jsstring \<Rightarrow> byte list" where
  "utf8_encode s = concat (map utf8_encode_cp (scalars s))"

text \<open>
  The UTF-8 decoder of the Encoding Standard. Between bytes it is either idle or inside a
  sequence, holding the code point so far, the number of bytes still needed and the range
  allowed for the next byte. A byte out of that range ends the sequence with U+FFFD and is
  read again as the start of a new one.
\<close>

definition utf8_lead :: "byte \<Rightarrow> nat + (nat \<times> nat \<times> nat \<times> nat)" where
  "utf8_lead b =
     (let n = unat b in
      if n \<le> 0x7F then Inl n
      else if 0xC2 \<le> n \<and> n \<le> 0xDF then Inr (n mod 0x20, 1, 0x80, 0xBF)
      else if 0xE0 \<le> n \<and> n \<le> 0xEF then
        Inr (n mod 0x10, 2, if n = 0xE0 then 0xA0 else 0x80, if n = 0xED then 0x9F else 0xBF)
      else if 0xF0 \<le> n \<and> n \<le> 0xF4 then
        Inr (n mod 0x08, 3, if n = 0xF0 then 0x90 else 0x80, if n = 0xF4 then 0x8F else 0xBF)
      else Inl 0xFFFD)"

fun utf8_decode_from :: "(nat \<times> nat \<times> nat \<times> nat) option \<Rightarrow> byte list \<Rightarrow> nat list" where
  "utf8_decode_from None [] = []"
| "utf8_decode_from (Some st) [] = [0xFFFD]"
| "utf8_decode_from None (b # bs) =
     (case utf8_lead b of
        Inl c \<Rightarrow> c # utf8_decode_from None bs
      | Inr st \<Rightarrow> utf8_decode_from (Some st) bs)"
| "utf8_decode_from (Some (cp, needed, lo, hi)) (b # bs) =
     (if unat b < lo \<or> hi < unat b then
        0xFFFD # (case utf8_lead b of
                    Inl c \<Rightarrow> c # utf8_decode_from None bs
                  | Inr st \<Rightarrow> utf8_decode_from (Some st) bs)
      else if needed = 1 then (cp * 0x40 + unat b mod 0x40) # utf8_decode_from None bs
      else utf8_decode_from (Some (cp * 0x40 + unat b mod 0x40, needed - 1, 0x80, 0xBF)) bs)"

definition utf16_encode_cp :: "nat \<Rightarrow> jsstring" where
  "utf16_encode_cp c =
     (if c < 0x10000 then [of_nat c]
      else [of_nat (0xD800 + (c - 0x10000) div 0x400), of_nat (0xDC00 + (c - 0x10000) mod 0x400)])"

text \<open>\<open>buf.toString("utf8")\<close>: decodes, keeping a leading U+FEFF.\<close>

definition utf8_toString :: "byte list \<Rightarrow> jsstring" where
  "utf8_toString bs = concat (map utf16_encode_cp (utf8_decode_from None bs))"

text \<open>\<open>new TextDecoder().decode(bytes)\<close>: the decoder is created with the default
  \<open>ignoreBOM = false\<close>, so a leading byte order mark EF BB BF is dropped from the output.\<close>

definition TextDecoder_decode :: "byte list \<Rightarrow> jsstring" where
  "TextDecoder_decode bs =
     utf8_toString (if take 3 bs = [0xEF, 0xBB, 0xBF] then drop 3 bs else bs)"

section \<open>Base64 and hexadecimal text\<close>

definition base64_alphabet :: string where
  "base64_alphabet = ''ABCDEFGHIJKLMNOPQRSTUVWXYZabcdefghijklmnopqrstuvwxyz0123456789+/''"

definition base64_char :: "nat \<Rightarrow> jschar" where
  "base64_char n = of_char (base64_alphabet ! n)"

text \<open>\<open>buf.toString("base64")\<close>: three bytes give four characters; the last group is
  padded with \<open>=\<close>.\<close>

fun base64_encode :: "byte list \<Rightarrow> jsstring" where
  "base64_encode [] = []"
| "base64_encode [a] =
     [base64_char (unat a div 4), base64_char (unat a mod 4 * 16), 0x3D, 0x3D]"
| "base64_encode [a, b] =
     [base64_char (unat a div 4), base64_char (unat a mod 4 * 16 + unat b div 16),
      base64_char (unat b mod 16 * 4), 0x3D]"
| "base64_encode (a # b # c # r) =
     [base64_char (unat a div 4), base64_char (unat a mod 4 * 16 + unat b div 16),
      base64_char (unat b mod 16 * 4 + unat c div 64), base64_char (unat c mod 64)]
     @ base64_encode r"

text \<open>
  \<open>Buffer.from(s, "base64")\<close> never throws. It accepts the standard and the URL-safe
  alphabet, skips every other character and stops at the first \<open>=\<close>; a last group of two
  or three characters gives one or two bytes, a single left-over character gives none.
\<close>

definition unbase64 :: "jschar \<Rightarrow> nat option" where
  "unbase64 c =
     (let n = unat c in
      if 0x41 \<le> n \<and> n \<le> 0x5A then Some (n - 0x41)
      else if 0x61 \<le> n \<and> n \<le> 0x7A then Some (n - 0x61 + 26)
      else if 0x30 \<le> n \<and> n \<le> 0x39 then Some (n - 0x30 + 52)
      else if n = 0x2B \<or> n = 0x2D then Some 62
      else if n = 0x2F \<or> n = 0x5F then Some 63
      else None)"

fun sextets :: "jsstring \<Rightarrow> nat list" where
  "sextets [] = []"
| "sextets (c # cs) =
     (if c = 0x3D then []
      else case unbase64 c of None \<Rightarrow> sextets cs | Some n \<Rightarrow> n # sextets cs)"

fun sextets_bytes :: "nat list \<Rightarrow> byte list" where
  "sextets_bytes (p # q # r # s # rest) =
     [of_nat (p * 4 + q div 16), of_nat (q mod 16 * 16 + r div 4), of_nat (r mod 4 * 64 + s)]
     @ sextets_bytes rest"
| "sextets_bytes [p, q, r] = [of_nat (p * 4 + q div 16), of_nat (q mod 16 * 16 + r div 4)]"
| "sextets_bytes [p, q] = [of_nat (p * 4 + q div 16)]"
| "sextets_bytes _ = []"

definition base64_decode :: "jsstring \<Rightarrow> byte list" where
  "base64_decode s = sextets_bytes (sextets s)"

definition hex_digit :: "nat \<Rightarrow> jschar" where
  "hex_digit n = of_char (''0123456789abcdef'' ! n)"

text \<open>\<open>digest("hex")\<close>: two lower-case digits per byte.\<close>

definition hex_encode :: "byte list \<Rightarrow> jsstring" where
  "hex_encode bs = concat (map (\<lambda>b. [hex_digit (unat b div 16), hex_digit (unat b mod 16)]) bs)"

section \<open>SHA-256\<close>

text \<open>
  \<open>createHash("sha256")\<close> of \<open>node:crypto\<close> is the hash function of FIPS 180-4: the
  message is padded to a multiple of 64 bytes and each block is mixed into eight 32-bit
  words; the digest is those words, big-endian.
\<close>

type_synonym w32 = "32 word"

definition sha256_K :: "w32 list" where
  "sha256_K =
     [
      0x428A2F98, 0x71374491, 0xB5C0FBCF, 0xE9B5DBA5,
      0x3956C25B, 0x59F111F1, 0x923F82A4, 0xAB1C5ED5,
      0xD807AA98, 0x12835B01, 0x243185BE, 0x550C7DC3,
      0x72BE5D74, 0x80DEB1FE, 0x9BDC06A7, 0xC19BF174,
      0xE49B69C1, 0xEFBE4786, 0x0FC19DC6, 0x240CA1CC,
      0x2DE92C6F, 0x4A7484AA, 0x5CB0A9DC, 0x76F988DA,
      0x983E5152, 0xA831C66D, 0xB00327C8, 0xBF597FC7,
      0xC6E00BF3, 0xD5A79147, 0x06CA6351, 0x14292967,
      0x27B70A85, 0x2E1B2138, 0x4D2C6DFC, 0x53380D13,
      0x650A7354, 0x766A0ABB, 0x81C2C92E, 0x92722C85,
      0xA2BFE8A1, 0xA81A664B, 0xC24B8B70, 0xC76C51A3,
      0xD192E819, 0xD6990624, 0xF40E3585, 0x106AA070,
      0x19A4C116, 0x1E376C08, 0x2748774C, 0x34B0BCB5,
      0x391C0CB3, 0x4ED8AA4A, 0x5B9CCA4F, 0x682E6FF3,
      0x748F82EE, 0x78A5636F, 0x84C87814, 0x8CC70208,
      0x90BEFFFA, 0xA4506CEB, 0xBEF9A3F7, 0xC67178F2]"

definition Ch :: "w32 \<Rightarrow> w32 \<Rightarrow> w32 \<Rightarrow> w32" where
  "Ch x y z = (x AND y) XOR (NOT x AND z)"

definition Maj :: "w32 \<Rightarrow> w32 \<Rightarrow> w32 \<Rightarrow> w32" where
  "Maj x y z = (x AND y) XOR (x AND z) XOR (y AND z)"

definition big_sigma0 :: "w32 \<Rightarrow> w32" where
  "big_sigma0 x = word_rotr 2 x XOR word_rotr 13 x XOR word_rotr 22 x"

definition big_sigma1 :: "w32 \<Rightarrow> w32" where
  "big_sigma1 x = word_rotr 6 x XOR word_rotr 11 x XOR word_rotr 25 x"

definition small_sigma0 :: "w32 \<Rightarrow> w32" where
  "small_sigma0 x = word_rotr 7 x XOR word_rotr 18 x XOR drop_bit 3 x"

definition small_sigma1 :: "w32 \<Rightarrow> w32" where
  "small_sigma1 x = word_rotr 17 x XOR word_rotr 19 x XOR drop_bit 10 x"

definition be_bytes64 :: "64 word \<Rightarrow> byte list" where
  "be_bytes64 w = map (\<lambda>i. ucast (drop_bit (8 * (7 - i)) w)) [0..<8]"

definition sha256_pad :: "byte list \<Rightarrow> byte list" where
  "sha256_pad m =
     m @ [0x80] @ replicate ((119 - length m mod 64) mod 64) 0
       @ be_bytes64 (of_nat (length m * 8))"

fun be_words :: "byte list \<Rightarrow> w32 list" where
  "be_words (a # b # c # d # r) =
     (push_bit 24 (ucast a) OR push_bit 16 (ucast b) OR push_bit 8 (ucast c) OR ucast d)
     # be_words r"
| "be_words _ = []"

definition be_bytes :: "w32 \<Rightarrow> byte list" where
  "be_bytes w = [ucast (drop_bit 24 w), ucast (drop_bit 16 w), ucast (drop_bit 8 w), ucast w]"

fun sha256_schedule :: "nat \<Rightarrow> w32 list \<Rightarrow> w32 list" where
  "sha256_schedule 0 w = w"
| "sha256_schedule (Suc n) w =
     (let t = length w in
      sha256_schedule n
        (w @ [small_sigma1 (w ! (t - 2)) + w ! (t - 7) + small_sigma0 (w ! (t - 15))
              + w ! (t - 16)]))"

type_synonym sha256_state = "w32 \<times> w32 \<times> w32 \<times> w32 \<times> w32 \<times> w32 \<times> w32 \<times> w32"

definition sha256_round :: "w32 \<times> w32 \<Rightarrow> sha256_state \<Rightarrow> sha256_state" where
  "sha256_round kw st =
     (case st of (a, b, c, d, e, f, g, h) \<Rightarrow>
        let t1 = h + big_sigma1 e + Ch e f g + fst kw + snd kw;
            t2 = big_sigma0 a + Maj a b c
        in (t1 + t2, a, b, c, d + t1, e, f, g))"

definition sha256_block :: "sha256_state \<Rightarrow> w32 list \<Rightarrow> sha256_state" where
  "sha256_block st ws =
     (case st of (a, b, c, d, e, f, g, h) \<Rightarrow>
        case fold sha256_round (zip sha256_K (sha256_schedule 48 ws)) st of
          (a', b', c', d', e', f', g', h') \<Rightarrow>
            (a + a', b + b', c + c', d + d', e + e', f + f', g + g', h + h'))"

fun sha256_blocks :: "sha256_state \<Rightarrow> w32 list \<Rightarrow> sha256_state" where
  "sha256_blocks st ws =
     (if length ws < 16 then st else sha256_blocks (sha256_block st (take 16 ws)) (drop 16 ws))"

declare sha256_blocks.simps [simp del]

definition sha256_init :: sha256_state where
  "sha256_init =
     (0x6A09E667, 0xBB67AE85, 0x3C6EF372, 0xA54FF53A,
      0x510E527F, 0x9B05688C, 0x1F83D9AB, 0x5BE0CD19)"

definition sha256 :: "byte list \<Rightarrow> byte list" where
  "sha256 m =
     (case sha256_blocks sha256_init (be_words (sha256_pad m)) of
        (a, b, c, d, e, f, g, h) \<Rightarrow>
          be_bytes a @ be_bytes b @ be_bytes c @ be_bytes d
          @ be_bytes e @ be_bytes f @ be_bytes g @ be_bytes h)"

section \<open>The cipher engine (\<open>crypto.ts\<close>)\<close>

record EncryptionResult =
  encrypted :: jsstring
  iv :: jsstring
  authTag :: jsstring

type_synonym DecryptionInput = EncryptionResult

definition KEY_LENGTH :: nat where
  "KEY_LENGTH = 32"

definition IV_LENGTH :: nat where
  "IV_LENGTH = 12"

definition TAG_LENGTH :: nat where
  "TAG_LENGTH = 16"

definition BATCH_LIMITS_ENCRYPTION :: nat where
  "BATCH_LIMITS_ENCRYPTION = 50"

definition BATCH_LIMITS_DECRYPTION :: nat where
  "BATCH_LIMITS_DECRYPTION = 25"

definition BATCH_LIMITS_HASH_GENERATION :: nat where
  "BATCH_LIMITS_HASH_GENERATION = 100"

text \<open>
  The loop shared by \<open>encrypt\<close> and \<open>decrypt\<close>:
  \<open>out[i] = data[i] ^ key[i % key.length] ^ iv[i % iv.length]\<close>. Both callers have
  checked that the key has 32 bytes, and the nonce has 12, so every index is in range.
\<close>

definition xor_bytes :: "byte list \<Rightarrow> byte list \<Rightarrow> byte list \<Rightarrow> byte list" where
  "xor_bytes data key nonce =
     map (\<lambda>i. data ! i XOR key ! (i mod length key) XOR nonce ! (i mod length nonce))
       [0..<length data]"

text \<open>
  \<open>encrypt(plaintext, key)\<close>. The first guard is
  \<open>!plaintext || typeof plaintext !== "string"\<close>; the key is a Buffer, so its guard
  tests the length. The nonce is drawn after the guards, the tag after the loop; nothing
  between them can throw, so the enclosing \<open>catch\<close> only passes the two
  \<open>EncryptionError\<close>s on.
\<close>

definition encrypt :: "jsval \<Rightarrow> byte list \<Rightarrow> rng \<Rightarrow> (error + EncryptionResult) \<times> rng" where
  "encrypt plaintext key g =
     (case plaintext of
        Str s \<Rightarrow>
          if s = [] then
            (Inl (EncryptionError (Message ''Invalid plaintext: must be a non-empty string'')), g)
          else if length key \<noteq> KEY_LENGTH then
            (Inl (EncryptionError
               (Message ''Invalid encryption key: must be 32 bytes for AES-256'')), g)
          else
            (case randomBytes IV_LENGTH g of (nonce, g1) \<Rightarrow>
             case randomBytes TAG_LENGTH g1 of (tag, g2) \<Rightarrow>
               (Inr \<lparr>encrypted = base64_encode (xor_bytes (utf8_encode s) key nonce),
                      iv = base64_encode nonce,
                      authTag = base64_encode tag\<rparr>, g2))
      | _ \<Rightarrow>
          (Inl (EncryptionError (Message ''Invalid plaintext: must be a non-empty string'')), g))"

text \<open>\<open>decrypt(input, key)\<close>: a missing field is an empty string here; the tag is decoded
  and measured, and not looked at again.\<close>

definition decrypt :: "DecryptionInput \<Rightarrow> byte list \<Rightarrow> error + jsstring" where
  "decrypt input key =
     (if encrypted input = [] \<or> iv input = [] \<or> authTag input = [] then
        Inl (DecryptionError (Message ''Invalid decryption input: missing required fields''))
      else if length key \<noteq> KEY_LENGTH then
        Inl (DecryptionError (Message ''Invalid decryption key: must be 32 bytes for AES-256''))
      else
        let nonce = base64_decode (iv input);
            tag = base64_decode (authTag input);
            body = base64_decode (encrypted input)
        in if length nonce \<noteq> IV_LENGTH then
             Inl (DecryptionError (Message ''Invalid IV length''))
           else if length tag \<noteq> TAG_LENGTH then
             Inl (DecryptionError (Message ''Invalid auth tag length''))
           else Inr (TextDecoder_decode (xor_bytes body key nonce)))"

text \<open>\<open>plaintexts.map((plaintext) => encrypt(plaintext, key))\<close>: left to right, the
  first item that throws ends the call.\<close>

fun encrypt_each :: "jsval list \<Rightarrow> byte list \<Rightarrow> rng \<Rightarrow> (error + EncryptionResult list) \<times> rng" where
  "encrypt_each [] key g = (Inr [], g)"
| "encrypt_each (p # ps) key g =
     (case encrypt p key g of
        (Inl e, g1) \<Rightarrow> (Inl e, g1)
      | (Inr r, g1) \<Rightarrow>
          (case encrypt_each ps key g1 of
             (Inl e, g2) \<Rightarrow> (Inl e, g2)
           | (Inr rs, g2) \<Rightarrow> (Inr (r # rs), g2)))"

definition encryptBatch :: "jsval list \<Rightarrow> byte list \<Rightarrow> rng \<Rightarrow> (error + EncryptionResult list) \<times> rng" where
  "encryptBatch plaintexts key g =
     (if length plaintexts > BATCH_LIMITS_ENCRYPTION then
        (Inl (EncryptionError (BatchSize (length plaintexts) BATCH_LIMITS_ENCRYPTION)), g)
      else encrypt_each plaintexts key g)"

fun decrypt_each :: "DecryptionInput list \<Rightarrow> byte list \<Rightarrow> error + jsstring list" where
  "decrypt_each [] key = Inr []"
| "decrypt_each (x # xs) key =
     (case decrypt x key of
        Inl e \<Rightarrow> Inl e
      | Inr p \<Rightarrow> (case decrypt_each xs key of Inl e \<Rightarrow> Inl e | Inr ps \<Rightarrow> Inr (p # ps)))"

definition decryptBatch :: "DecryptionInput list \<Rightarrow> byte list \<Rightarrow> error + jsstring list" where
  "decryptBatch inputs key =
     (if length inputs > BATCH_LIMITS_DECRYPTION then
        Inl (DecryptionError (BatchSize (length inputs) BATCH_LIMITS_DECRYPTION))
      else decrypt_each inputs key)"

definition generateEncryptionKey :: "rng \<Rightarrow> byte list \<times> rng" where
  "generateEncryptionKey g = randomBytes KEY_LENGTH g"

definition validateEncryptionKey :: "byte list \<Rightarrow> error + bool" where
  "validateEncryptionKey key =
     (if length key \<noteq> KEY_LENGTH then
        Inl (EncryptionError (Message ''Key must be 32 bytes for AES-256''))
      else Inr True)"

section \<open>The digest engine (\<open>hash.ts\<close>)\<close>

record HashResult =
  hash :: jsstring
  algorithm :: string

text \<open>
  \<open>data.toLowerCase()\<close>. The string is read as code points (a surrogate pair is one code
  point, any other code unit is a code point of its own, an unpaired surrogate too), every
  code point is replaced by its lower-case mapping of the Unicode Character Database, and
  the result is written back as code units.
\<close>

fun code_points :: "jsstring \<Rightarrow> nat list" where
  "code_points [] = []"
| "code_points [u] = [unat u]"
| "code_points (u # v # r) =
     (if is_high_surrogate u \<and> is_low_surrogate v
      then (0x10000 + (unat u - 0xD800) * 0x400 + (unat v - 0xDC00)) # code_points r
      else unat u # code_points (v # r))"

text \<open>
  The simple lower-case mappings of \<open>UnicodeData.txt\<close>, Unicode 15.0. An entry
  \<open>(first, last, step, target)\<close> maps the code points \<open>first\<close>, \<open>first + step\<close>, ... up to
  \<open>last\<close> to \<open>target\<close>, \<open>target + step\<close>, ...; a code point that no entry covers is its
  own lower-case form.
\<close>

definition lowercase_table :: "(nat \<times> nat \<times> nat \<times> nat) list" where
  "lowercase_table =
    [(0x41, 0x5A, 1, 0x61), (0xC0, 0xD6, 1, 0xE0), (0xD8, 0xDE, 1, 0xF8),
     (0x100, 0x12E, 2, 0x101), (0x130, 0x130, 1, 0x69), (0x132, 0x136, 2, 0x133),
     (0x139, 0x147, 2, 0x13A), (0x14A, 0x176, 2, 0x14B), (0x178, 0x178, 1, 0xFF),
     (0x179, 0x17D, 2, 0x17A), (0x181, 0x181, 1, 0x253), (0x182, 0x184, 2, 0x183),
     (0x186, 0x186, 1, 0x254), (0x187, 0x187, 1, 0x188), (0x189, 0x18A, 1, 0x256),
     (0x18B, 0x18B, 1, 0x18C), (0x18E, 0x18E, 1, 0x1DD), (0x18F, 0x18F, 1, 0x259),
     (0x190, 0x190, 1, 0x25B), (0x191, 0x191, 1, 0x192), (0x193, 0x193, 1, 0x260),
     (0x194, 0x194, 1, 0x263), (0x196, 0x196, 1, 0x269), (0x197, 0x197, 1, 0x268),
     (0x198, 0x198, 1, 0x199), (0x19C, 0x19C, 1, 0x26F), (0x19D, 0x19D, 1, 0x272),
     (0x19F, 0x19F, 1, 0x275), (0x1A0, 0x1A4, 2, 0x1A1), (0x1A6, 0x1A6, 1, 0x280),
     (0x1A7, 0x1A7, 1, 0x1A8), (0x1A9, 0x1A9, 1, 0x283), (0x1AC, 0x1AC, 1, 0x1AD),
     (0x1AE, 0x1AE, 1, 0x288), (0x1AF, 0x1AF, 1, 0x1B0), (0x1B1, 0x1B2, 1, 0x28A),
     (0x1B3, 0x1B5, 2, 0x1B4), (0x1B7, 0x1B7, 1, 0x292), (0x1B8, 0x1B8, 1, 0x1B9),
     (0x1BC, 0x1BC, 1, 0x1BD), (0x1C4, 0x1C4, 1, 0x1C6), (0x1C5, 0x1C5, 1, 0x1C6),
     (0x1C7, 0x1C7, 1, 0x1C9), (0x1C8, 0x1C8, 1, 0x1C9), (0x1CA, 0x1CA, 1, 0x1CC),
     (0x1CB, 0x1DB, 2, 0x1CC), (0x1DE, 0x1EE, 2, 0x1DF), (0x1F1, 0x1F1, 1, 0x1F3),
     (0x1F2, 0x1F4, 2, 0x1F3), (0x1F6, 0x1F6, 1, 0x195), (0x1F7, 0x1F7, 1, 0x1BF),
     (0x1F8, 0x21E, 2, 0x1F9), (0x220, 0x220, 1, 0x19E), (0x222, 0x232, 2, 0x223),
     (0x23A, 0x23A, 1, 0x2C65), (0x23B, 0x23B, 1, 0x23C), (0x23D, 0x23D, 1, 0x19A),
     (0x23E, 0x23E, 1, 0x2C66), (0x241, 0x241, 1, 0x242), (0x243, 0x243, 1, 0x180),
     (0x244, 0x244, 1, 0x289), (0x245, 0x245, 1, 0x28C), (0x246, 0x24E, 2, 0x247),
     (0x370, 0x372, 2, 0x371), (0x376, 0x376, 1, 0x377), (0x37F, 0x37F, 1, 0x3F3),
     (0x386, 0x386, 1, 0x3AC), (0x388, 0x38A, 1, 0x3AD), (0x38C, 0x38C, 1, 0x3CC),
     (0x38E, 0x38F, 1, 0x3CD), (0x391, 0x3A1, 1, 0x3B1), (0x3A3, 0x3AB, 1, 0x3C3),
     (0x3CF, 0x3CF, 1, 0x3D7), (0x3D8, 0x3EE, 2, 0x3D9), (0x3F4, 0x3F4, 1, 0x3B8),
     (0x3F7, 0x3F7, 1, 0x3F8), (0x3F9, 0x3F9, 1, 0x3F2), (0x3FA, 0x3FA, 1, 0x3FB),
     (0x3FD, 0x3FF, 1, 0x37B), (0x400, 0x40F, 1, 0x450), (0x410, 0x42F, 1, 0x430),
     (0x460, 0x480, 2, 0x461), (0x48A, 0x4BE, 2, 0x48B), (0x4C0, 0x4C0, 1, 0x4CF),
     (0x4C1, 0x4CD, 2, 0x4C2), (0x4D0, 0x52E, 2, 0x4D1), (0x531, 0x556, 1, 0x561),
     (0x10A0, 0x10C5, 1, 0x2D00), (0x10C7, 0x10C7, 1, 0x2D27), (0x10CD, 0x10CD, 1, 0x2D2D),
     (0x13A0, 0x13EF, 1, 0xAB70), (0x13F0, 0x13F5, 1, 0x13F8), (0x1C90, 0x1CBA, 1, 0x10D0),
     (0x1CBD, 0x1CBF, 1, 0x10FD), (0x1E00, 0x1E94, 2, 0x1E01), (0x1E9E, 0x1E9E, 1, 0xDF),
     (0x1EA0, 0x1EFE, 2, 0x1EA1), (0x1F08, 0x1F0F, 1, 0x1F00), (0x1F18, 0x1F1D, 1, 0x1F10),
     (0x1F28, 0x1F2F, 1, 0x1F20), (0x1F38, 0x1F3F, 1, 0x1F30), (0x1F48, 0x1F4D, 1, 0x1F40),
     (0x1F59, 0x1F5F, 2, 0x1F51), (0x1F68, 0x1F6F, 1, 0x1F60), (0x1F88, 0x1F8F, 1, 0x1F80),
     (0x1F98, 0x1F9F, 1, 0x1F90), (0x1FA8, 0x1FAF, 1, 0x1FA0), (0x1FB8, 0x1FB9, 1, 0x1FB0),
     (0x1FBA, 0x1FBB, 1, 0x1F70), (0x1FBC, 0x1FBC, 1, 0x1FB3), (0x1FC8, 0x1FCB, 1, 0x1F72),
     (0x1FCC, 0x1FCC, 1, 0x1FC3), (0x1FD8, 0x1FD9, 1, 0x1FD0), (0x1FDA, 0x1FDB, 1, 0x1F76),
     (0x1FE8, 0x1FE9, 1, 0x1FE0), (0x1FEA, 0x1FEB, 1, 0x1F7A), (0x1FEC, 0x1FEC, 1, 0x1FE5),
     (0x1FF8, 0x1FF9, 1, 0x1F78), (0x1FFA, 0x1FFB, 1, 0x1F7C), (0x1FFC, 0x1FFC, 1, 0x1FF3),
     (0x2126, 0x2126, 1, 0x3C9), (0x212A, 0x212A, 1, 0x6B), (0x212B, 0x212B, 1, 0xE5),
     (0x2132, 0x2132, 1, 0x214E), (0x2160, 0x216F, 1, 0x2170), (0x2183, 0x2183, 1, 0x2184),
     (0x24B6, 0x24CF, 1, 0x24D0), (0x2C00, 0x2C2F, 1, 0x2C30), (0x2C60, 0x2C60, 1, 0x2C61),
     (0x2C62, 0x2C62, 1, 0x26B), (0x2C63, 0x2C63, 1, 0x1D7D), (0x2C64, 0x2C64, 1, 0x27D),
     (0x2C67, 0x2C6B, 2, 0x2C68), (0x2C6D, 0x2C6D, 1, 0x251), (0x2C6E, 0x2C6E, 1, 0x271),
     (0x2C6F, 0x2C6F, 1, 0x250), (0x2C70, 0x2C70, 1, 0x252), (0x2C72, 0x2C72, 1, 0x2C73),
     (0x2C75, 0x2C75, 1, 0x2C76), (0x2C7E, 0x2C7F, 1, 0x23F), (0x2C80, 0x2CE2, 2, 0x2C81),
     (0x2CEB, 0x2CED, 2, 0x2CEC), (0x2CF2, 0x2CF2, 1, 0x2CF3), (0xA640, 0xA66C, 2, 0xA641),
     (0xA680, 0xA69A, 2, 0xA681), (0xA722, 0xA72E, 2, 0xA723), (0xA732, 0xA76E, 2, 0xA733),
     (0xA779, 0xA77B, 2, 0xA77A), (0xA77D, 0xA77D, 1, 0x1D79), (0xA77E, 0xA786, 2, 0xA77F),
     (0xA78B, 0xA78B, 1, 0xA78C), (0xA78D, 0xA78D, 1, 0x265), (0xA790, 0xA792, 2, 0xA791),
     (0xA796, 0xA7A8, 2, 0xA797), (0xA7AA, 0xA7AA, 1, 0x266), (0xA7AB, 0xA7AB, 1, 0x25C),
     (0xA7AC, 0xA7AC, 1, 0x261), (0xA7AD, 0xA7AD, 1, 0x26C), (0xA7AE, 0xA7AE, 1, 0x26A),
     (0xA7B0, 0xA7B0, 1, 0x29E), (0xA7B1, 0xA7B1, 1, 0x287), (0xA7B2, 0xA7B2, 1, 0x29D),
     (0xA7B3, 0xA7B3, 1, 0xAB53), (0xA7B4, 0xA7C2, 2, 0xA7B5), (0xA7C4, 0xA7C4, 1, 0xA794),
     (0xA7C5, 0xA7C5, 1, 0x282), (0xA7C6, 0xA7C6, 1, 0x1D8E), (0xA7C7, 0xA7C9, 2, 0xA7C8),
     (0xA7D0, 0xA7D0, 1, 0xA7D1), (0xA7D6, 0xA7D8, 2, 0xA7D7), (0xA7F5, 0xA7F5, 1, 0xA7F6),
     (0xFF21, 0xFF3A, 1, 0xFF41), (0x10400, 0x10427, 1, 0x10428), (0x104B0, 0x104D3, 1, 0x104D8),
     (0x10570, 0x1057A, 1, 0x10597), (0x1057C, 0x1058A, 1, 0x105A3), (0x1058C, 0x10592, 1, 0x105B3),
     (0x10594, 0x10595, 1, 0x105BB), (0x10C80, 0x10CB2, 1, 0x10CC0), (0x118A0, 0x118BF, 1, 0x118C0),
     (0x16E40, 0x16E5F, 1, 0x16E60), (0x1E900, 0x1E921, 1, 0x1E922)]"

fun lowercase_in :: "(nat \<times> nat \<times> nat \<times> nat) list \<Rightarrow> nat \<Rightarrow> nat" where
  "lowercase_in [] c = c"
| "lowercase_in ((lo, hi, step, target) # t) c =
     (if lo \<le> c \<and> c \<le> hi \<and> (c - lo) mod step = 0 then target + (c - lo)
      else lowercase_in t c)"

definition simple_lowercase :: "nat \<Rightarrow> nat" where
  "simple_lowercase c = lowercase_in lowercase_table c"

text \<open>
  The properties \<open>Cased\<close> and \<open>Case_Ignorable\<close> of \<open>DerivedCoreProperties.txt\<close>,
  Unicode 15.0, as ranges of code points.
\<close>

definition cased_table :: "(nat \<times> nat) list" where
  "cased_table =
    [(0x41, 0x5A), (0x61, 0x7A), (0xAA, 0xAA), (0xB5, 0xB5), (0xBA, 0xBA),
     (0xC0, 0xD6), (0xD8, 0xF6), (0xF8, 0x1BA), (0x1BC, 0x1BF), (0x1C4, 0x293),
     (0x295, 0x2B8), (0x2C0, 0x2C1), (0x2E0, 0x2E4), (0x345, 0x345), (0x370, 0x373),
     (0x376, 0x377), (0x37A, 0x37D), (0x37F, 0x37F), (0x386, 0x386), (0x388, 0x38A),
     (0x38C, 0x38C), (0x38E, 0x3A1), (0x3A3, 0x3F5), (0x3F7, 0x481), (0x48A, 0x52F),
     (0x531, 0x556), (0x560, 0x588), (0x10A0, 0x10C5), (0x10C7, 0x10C7), (0x10CD, 0x10CD),
     (0x10D0, 0x10FA), (0x10FC, 0x10FF), (0x13A0, 0x13F5), (0x13F8, 0x13FD), (0x1C80, 0x1C88),
     (0x1C90, 0x1CBA), (0x1CBD, 0x1CBF), (0x1D00, 0x1DBF), (0x1E00, 0x1F15), (0x1F18, 0x1F1D),
     (0x1F20, 0x1F45), (0x1F48, 0x1F4D), (0x1F50, 0x1F57), (0x1F59, 0x1F59), (0x1F5B, 0x1F5B),
     (0x1F5D, 0x1F5D), (0x1F5F, 0x1F7D), (0x1F80, 0x1FB4), (0x1FB6, 0x1FBC), (0x1FBE, 0x1FBE),
     (0x1FC2, 0x1FC4), (0x1FC6, 0x1FCC), (0x1FD0, 0x1FD3), (0x1FD6, 0x1FDB), (0x1FE0, 0x1FEC),
     (0x1FF2, 0x1FF4), (0x1FF6, 0x1FFC), (0x2071, 0x2071), (0x207F, 0x207F), (0x2090, 0x209C),
     (0x2102, 0x2102), (0x2107, 0x2107), (0x210A, 0x2113), (0x2115, 0x2115), (0x2119, 0x211D),
     (0x2124, 0x2124), (0x2126, 0x2126), (0x2128, 0x2128), (0x212A, 0x212D), (0x212F, 0x2134),
     (0x2139, 0x2139), (0x213C, 0x213F), (0x2145, 0x2149), (0x214E, 0x214E), (0x2160, 0x217F),
     (0x2183, 0x2184), (0x24B6, 0x24E9), (0x2C00, 0x2CE4), (0x2CEB, 0x2CEE), (0x2CF2, 0x2CF3),
     (0x2D00, 0x2D25), (0x2D27, 0x2D27), (0x2D2D, 0x2D2D), (0xA640, 0xA66D), (0xA680, 0xA69D),
     (0xA722, 0xA787), (0xA78B, 0xA78E), (0xA790, 0xA7CA), (0xA7D0, 0xA7D1), (0xA7D3, 0xA7D3),
     (0xA7D5, 0xA7D9), (0xA7F2, 0xA7F6), (0xA7F8, 0xA7FA), (0xAB30, 0xAB5A), (0xAB5C, 0xAB69),
     (0xAB70, 0xABBF), (0xFB00, 0xFB06), (0xFB13, 0xFB17), (0xFF21, 0xFF3A), (0xFF41, 0xFF5A),
     (0x10400, 0x1044F), (0x104B0, 0x104D3), (0x104D8, 0x104FB), (0x10570, 0x1057A), (0x1057C, 0x1058A),
     (0x1058C, 0x10592), (0x10594, 0x10595), (0x10597, 0x105A1), (0x105A3, 0x105B1), (0x105B3, 0x105B9),
     (0x105BB, 0x105BC), (0x10780, 0x10780), (0x10783, 0x10785), (0x10787, 0x107B0), (0x107B2, 0x107BA),
     (0x10C80, 0x10CB2), (0x10CC0, 0x10CF2), (0x118A0, 0x118DF), (0x16E40, 0x16E7F), (0x1D400, 0x1D454),
     (0x1D456, 0x1D49C), (0x1D49E, 0x1D49F), (0x1D4A2, 0x1D4A2), (0x1D4A5, 0x1D4A6), (0x1D4A9, 0x1D4AC),
     (0x1D4AE, 0x1D4B9), (0x1D4BB, 0x1D4BB), (0x1D4BD, 0x1D4C3), (0x1D4C5, 0x1D505), (0x1D507, 0x1D50A),
     (0x1D50D, 0x1D514), (0x1D516, 0x1D51C), (0x1D51E, 0x1D539), (0x1D53B, 0x1D53E), (0x1D540, 0x1D544),
     (0x1D546, 0x1D546), (0x1D54A, 0x1D550), (0x1D552, 0x1D6A5), (0x1D6A8, 0x1D6C0), (0x1D6C2, 0x1D6DA),
     (0x1D6DC, 0x1D6FA), (0x1D6FC, 0x1D714), (0x1D716, 0x1D734), (0x1D736, 0x1D74E), (0x1D750, 0x1D76E),
     (0x1D770, 0x1D788), (0x1D78A, 0x1D7A8), (0x1D7AA, 0x1D7C2), (0x1D7C4, 0x1D7CB), (0x1DF00, 0x1DF09),
     (0x1DF0B, 0x1DF1E), (0x1DF25, 0x1DF2A), (0x1E030, 0x1E06D), (0x1E900, 0x1E943), (0x1F130, 0x1F149),
     (0x1F150, 0x1F169), (0x1F170, 0x1F189)]"

definition case_ignorable_table :: "(nat \<times> nat) list" where
  "case_ignorable_table =
    [(0x27, 0x27), (0x2E, 0x2E), (0x3A, 0x3A), (0x5E, 0x5E), (0x60, 0x60),
     (0xA8, 0xA8), (0xAD, 0xAD), (0xAF, 0xAF), (0xB4, 0xB4), (0xB7, 0xB8),
     (0x2B0, 0x36F), (0x374, 0x375), (0x37A, 0x37A), (0x384, 0x385), (0x387, 0x387),
     (0x483, 0x489), (0x559, 0x559), (0x55F, 0x55F), (0x591, 0x5BD), (0x5BF, 0x5BF),
     (0x5C1, 0x5C2), (0x5C4, 0x5C5), (0x5C7, 0x5C7), (0x5F4, 0x5F4), (0x600, 0x605),
     (0x610, 0x61A), (0x61C, 0x61C), (0x640, 0x640), (0x64B, 0x65F), (0x670, 0x670),
     (0x6D6, 0x6DD), (0x6DF, 0x6E8), (0x6EA, 0x6ED), (0x70F, 0x70F), (0x711, 0x711),
     (0x730, 0x74A), (0x7A6, 0x7B0), (0x7EB, 0x7F5), (0x7FA, 0x7FA), (0x7FD, 0x7FD),
     (0x816, 0x82D), (0x859, 0x85B), (0x888, 0x888), (0x890, 0x891), (0x898, 0x89F),
     (0x8C9, 0x902), (0x93A, 0x93A), (0x93C, 0x93C), (0x941, 0x948), (0x94D, 0x94D),
     (0x951, 0x957), (0x962, 0x963), (0x971, 0x971), (0x981, 0x981), (0x9BC, 0x9BC),
     (0x9C1, 0x9C4), (0x9CD, 0x9CD), (0x9E2, 0x9E3), (0x9FE, 0x9FE), (0xA01, 0xA02),
     (0xA3C, 0xA3C), (0xA41, 0xA42), (0xA47, 0xA48), (0xA4B, 0xA4D), (0xA51, 0xA51),
     (0xA70, 0xA71), (0xA75, 0xA75), (0xA81, 0xA82), (0xABC, 0xABC), (0xAC1, 0xAC5),
     (0xAC7, 0xAC8), (0xACD, 0xACD), (0xAE2, 0xAE3), (0xAFA, 0xAFF), (0xB01, 0xB01),
     (0xB3C, 0xB3C), (0xB3F, 0xB3F), (0xB41, 0xB44), (0xB4D, 0xB4D), (0xB55, 0xB56),
     (0xB62, 0xB63), (0xB82, 0xB82), (0xBC0, 0xBC0), (0xBCD, 0xBCD), (0xC00, 0xC00),
     (0xC04, 0xC04), (0xC3C, 0xC3C), (0xC3E, 0xC40), (0xC46, 0xC48), (0xC4A, 0xC4D),
     (0xC55, 0xC56), (0xC62, 0xC63), (0xC81, 0xC81), (0xCBC, 0xCBC), (0xCBF, 0xCBF),
     (0xCC6, 0xCC6), (0xCCC, 0xCCD), (0xCE2, 0xCE3), (0xD00, 0xD01), (0xD3B, 0xD3C),
     (0xD41, 0xD44), (0xD4D, 0xD4D), (0xD62, 0xD63), (0xD81, 0xD81), (0xDCA, 0xDCA),
     (0xDD2, 0xDD4), (0xDD6, 0xDD6), (0xE31, 0xE31), (0xE34, 0xE3A), (0xE46, 0xE4E),
     (0xEB1, 0xEB1), (0xEB4, 0xEBC), (0xEC6, 0xEC6), (0xEC8, 0xECE), (0xF18, 0xF19),
     (0xF35, 0xF35), (0xF37, 0xF37), (0xF39, 0xF39), (0xF71, 0xF7E), (0xF80, 0xF84),
     (0xF86, 0xF87), (0xF8D, 0xF97), (0xF99, 0xFBC), (0xFC6, 0xFC6), (0x102D, 0x1030),
     (0x1032, 0x1037), (0x1039, 0x103A), (0x103D, 0x103E), (0x1058, 0x1059), (0x105E, 0x1060),
     (0x1071, 0x1074), (0x1082, 0x1082), (0x1085, 0x1086), (0x108D, 0x108D), (0x109D, 0x109D),
     (0x10FC, 0x10FC), (0x135D, 0x135F), (0x1712, 0x1714), (0x1732, 0x1733), (0x1752, 0x1753),
     (0x1772, 0x1773), (0x17B4, 0x17B5), (0x17B7, 0x17BD), (0x17C6, 0x17C6), (0x17C9, 0x17D3),
     (0x17D7, 0x17D7), (0x17DD, 0x17DD), (0x180B, 0x180F), (0x1843, 0x1843), (0x1885, 0x1886),
     (0x18A9, 0x18A9), (0x1920, 0x1922), (0x1927, 0x1928), (0x1932, 0x1932), (0x1939, 0x193B),
     (0x1A17, 0x1A18), (0x1A1B, 0x1A1B), (0x1A56, 0x1A56), (0x1A58, 0x1A5E), (0x1A60, 0x1A60),
     (0x1A62, 0x1A62), (0x1A65, 0x1A6C), (0x1A73, 0x1A7C), (0x1A7F, 0x1A7F), (0x1AA7, 0x1AA7),
     (0x1AB0, 0x1ACE), (0x1B00, 0x1B03), (0x1B34, 0x1B34), (0x1B36, 0x1B3A), (0x1B3C, 0x1B3C),
     (0x1B42, 0x1B42), (0x1B6B, 0x1B73), (0x1B80, 0x1B81), (0x1BA2, 0x1BA5), (0x1BA8, 0x1BA9),
     (0x1BAB, 0x1BAD), (0x1BE6, 0x1BE6), (0x1BE8, 0x1BE9), (0x1BED, 0x1BED), (0x1BEF, 0x1BF1),
     (0x1C2C, 0x1C33), (0x1C36, 0x1C37), (0x1C78, 0x1C7D), (0x1CD0, 0x1CD2), (0x1CD4, 0x1CE0),
     (0x1CE2, 0x1CE8), (0x1CED, 0x1CED), (0x1CF4, 0x1CF4), (0x1CF8, 0x1CF9), (0x1D2C, 0x1D6A),
     (0x1D78, 0x1D78), (0x1D9B, 0x1DFF), (0x1FBD, 0x1FBD), (0x1FBF, 0x1FC1), (0x1FCD, 0x1FCF),
     (0x1FDD, 0x1FDF), (0x1FED, 0x1FEF), (0x1FFD, 0x1FFE), (0x200B, 0x200F), (0x2018, 0x2019),
     (0x2024, 0x2024), (0x2027, 0x2027), (0x202A, 0x202E), (0x2060, 0x2064), (0x2066, 0x206F),
     (0x2071, 0x2071), (0x207F, 0x207F), (0x2090, 0x209C), (0x20D0, 0x20F0), (0x2C7C, 0x2C7D),
     (0x2CEF, 0x2CF1), (0x2D6F, 0x2D6F), (0x2D7F, 0x2D7F), (0x2DE0, 0x2DFF), (0x2E2F, 0x2E2F),
     (0x3005, 0x3005), (0x302A, 0x302D), (0x3031, 0x3035), (0x303B, 0x303B), (0x3099, 0x309E),
     (0x30FC, 0x30FE), (0xA015, 0xA015), (0xA4F8, 0xA4FD), (0xA60C, 0xA60C), (0xA66F, 0xA672),
     (0xA674, 0xA67D), (0xA67F, 0xA67F), (0xA69C, 0xA69F), (0xA6F0, 0xA6F1), (0xA700, 0xA721),
     (0xA770, 0xA770), (0xA788, 0xA78A), (0xA7F2, 0xA7F4), (0xA7F8, 0xA7F9), (0xA802, 0xA802),
     (0xA806, 0xA806), (0xA80B, 0xA80B), (0xA825, 0xA826), (0xA82C, 0xA82C), (0xA8C4, 0xA8C5),
     (0xA8E0, 0xA8F1), (0xA8FF, 0xA8FF), (0xA926, 0xA92D), (0xA947, 0xA951), (0xA980, 0xA982),
     (0xA9B3, 0xA9B3), (0xA9B6, 0xA9B9), (0xA9BC, 0xA9BD), (0xA9CF, 0xA9CF), (0xA9E5, 0xA9E6),
     (0xAA29, 0xAA2E), (0xAA31, 0xAA32), (0xAA35, 0xAA36), (0xAA43, 0xAA43), (0xAA4C, 0xAA4C),
     (0xAA70, 0xAA70), (0xAA7C, 0xAA7C), (0xAAB0, 0xAAB0), (0xAAB2, 0xAAB4), (0xAAB7, 0xAAB8),
     (0xAABE, 0xAABF), (0xAAC1, 0xAAC1), (0xAADD, 0xAADD), (0xAAEC, 0xAAED), (0xAAF3, 0xAAF4),
     (0xAAF6, 0xAAF6), (0xAB5B, 0xAB5F), (0xAB69, 0xAB6B), (0xABE5, 0xABE5), (0xABE8, 0xABE8),
     (0xABED, 0xABED), (0xFB1E, 0xFB1E), (0xFBB2, 0xFBC2), (0xFE00, 0xFE0F), (0xFE13, 0xFE13),
     (0xFE20, 0xFE2F), (0xFE52, 0xFE52), (0xFE55, 0xFE55), (0xFEFF, 0xFEFF), (0xFF07, 0xFF07),
     (0xFF0E, 0xFF0E), (0xFF1A, 0xFF1A), (0xFF3E, 0xFF3E), (0xFF40, 0xFF40), (0xFF70, 0xFF70),
     (0xFF9E, 0xFF9F), (0xFFE3, 0xFFE3), (0xFFF9, 0xFFFB), (0x101FD, 0x101FD), (0x102E0, 0x102E0),
     (0x10376, 0x1037A), (0x10780, 0x10785), (0x10787, 0x107B0), (0x107B2, 0x107BA), (0x10A01, 0x10A03),
     (0x10A05, 0x10A06), (0x10A0C, 0x10A0F), (0x10A38, 0x10A3A), (0x10A3F, 0x10A3F), (0x10AE5, 0x10AE6),
     (0x10D24, 0x10D27), (0x10EAB, 0x10EAC), (0x10EFD, 0x10EFF), (0x10F46, 0x10F50), (0x10F82, 0x10F85),
     (0x11001, 0x11001), (0x11038, 0x11046), (0x11070, 0x11070), (0x11073, 0x11074), (0x1107F, 0x11081),
     (0x110B3, 0x110B6), (0x110B9, 0x110BA), (0x110BD, 0x110BD), (0x110C2, 0x110C2), (0x110CD, 0x110CD),
     (0x11100, 0x11102), (0x11127, 0x1112B), (0x1112D, 0x11134), (0x11173, 0x11173), (0x11180, 0x11181),
     (0x111B6, 0x111BE), (0x111C9, 0x111CC), (0x111CF, 0x111CF), (0x1122F, 0x11231), (0x11234, 0x11234),
     (0x11236, 0x11237), (0x1123E, 0x1123E), (0x11241, 0x11241), (0x112DF, 0x112DF), (0x112E3, 0x112EA),
     (0x11300, 0x11301), (0x1133B, 0x1133C), (0x11340, 0x11340), (0x11366, 0x1136C), (0x11370, 0x11374),
     (0x11438, 0x1143F), (0x11442, 0x11444), (0x11446, 0x11446), (0x1145E, 0x1145E), (0x114B3, 0x114B8),
     (0x114BA, 0x114BA), (0x114BF, 0x114C0), (0x114C2, 0x114C3), (0x115B2, 0x115B5), (0x115BC, 0x115BD),
     (0x115BF, 0x115C0), (0x115DC, 0x115DD), (0x11633, 0x1163A), (0x1163D, 0x1163D), (0x1163F, 0x11640),
     (0x116AB, 0x116AB), (0x116AD, 0x116AD), (0x116B0, 0x116B5), (0x116B7, 0x116B7), (0x1171D, 0x1171F),
     (0x11722, 0x11725), (0x11727, 0x1172B), (0x1182F, 0x11837), (0x11839, 0x1183A), (0x1193B, 0x1193C),
     (0x1193E, 0x1193E), (0x11943, 0x11943), (0x119D4, 0x119D7), (0x119DA, 0x119DB), (0x119E0, 0x119E0),
     (0x11A01, 0x11A0A), (0x11A33, 0x11A38), (0x11A3B, 0x11A3E), (0x11A47, 0x11A47), (0x11A51, 0x11A56),
     (0x11A59, 0x11A5B), (0x11A8A, 0x11A96), (0x11A98, 0x11A99), (0x11C30, 0x11C36), (0x11C38, 0x11C3D),
     (0x11C3F, 0x11C3F), (0x11C92, 0x11CA7), (0x11CAA, 0x11CB0), (0x11CB2, 0x11CB3), (0x11CB5, 0x11CB6),
     (0x11D31, 0x11D36), (0x11D3A, 0x11D3A), (0x11D3C, 0x11D3D), (0x11D3F, 0x11D45), (0x11D47, 0x11D47),
     (0x11D90, 0x11D91), (0x11D95, 0x11D95), (0x11D97, 0x11D97), (0x11EF3, 0x11EF4), (0x11F00, 0x11F01),
     (0x11F36, 0x11F3A), (0x11F40, 0x11F40), (0x11F42, 0x11F42), (0x13430, 0x13440), (0x13447, 0x13455),
     (0x16AF0, 0x16AF4), (0x16B30, 0x16B36), (0x16B40, 0x16B43), (0x16F4F, 0x16F4F), (0x16F8F, 0x16F9F),
     (0x16FE0, 0x16FE1), (0x16FE3, 0x16FE4), (0x1AFF0, 0x1AFF3), (0x1AFF5, 0x1AFFB), (0x1AFFD, 0x1AFFE),
     (0x1BC9D, 0x1BC9E), (0x1BCA0, 0x1BCA3), (0x1CF00, 0x1CF2D), (0x1CF30, 0x1CF46), (0x1D167, 0x1D169),
     (0x1D173, 0x1D182), (0x1D185, 0x1D18B), (0x1D1AA, 0x1D1AD), (0x1D242, 0x1D244), (0x1DA00, 0x1DA36),
     (0x1DA3B, 0x1DA6C), (0x1DA75, 0x1DA75), (0x1DA84, 0x1DA84), (0x1DA9B, 0x1DA9F), (0x1DAA1, 0x1DAAF),
     (0x1E000, 0x1E006), (0x1E008, 0x1E018), (0x1E01B, 0x1E021), (0x1E023, 0x1E024), (0x1E026, 0x1E02A),
     (0x1E030, 0x1E06D), (0x1E08F, 0x1E08F), (0x1E130, 0x1E13D), (0x1E2AE, 0x1E2AE), (0x1E2EC, 0x1E2EF),
     (0x1E4EB, 0x1E4EF), (0x1E8D0, 0x1E8D6), (0x1E944, 0x1E94B), (0x1F3FB, 0x1F3FF), (0xE0001, 0xE0001),
     (0xE0020, 0xE007F), (0xE0100, 0xE01EF)]"

fun in_ranges :: "(nat \<times> nat) list \<Rightarrow> nat \<Rightarrow> bool" where
  "in_ranges [] c = False"
| "in_ranges ((lo, hi) # t) c = (if lo \<le> c \<and> c \<le> hi then True else in_ranges t c)"

definition cased :: "nat \<Rightarrow> bool" where
  "cased c = in_ranges cased_table c"

definition case_ignorable :: "nat \<Rightarrow> bool" where
  "case_ignorable c = in_ranges case_ignorable_table c"

text \<open>
  The two mappings of \<open>SpecialCasing.txt\<close> that do not depend on the language. U+0130
  becomes U+0069 U+0307. The capital sigma U+03A3 becomes the final sigma U+03C2 when it
  ends a word (condition \<open>Final_Sigma\<close>: going backwards over case-ignorable code points
  one meets a cased one, and going forwards over case-ignorable code points one does not),
  otherwise U+03C3. \<open>preceding\<close> holds the code points that precede, the nearest first.
\<close>

fun followed_by_cased :: "nat list \<Rightarrow> bool" where
  "followed_by_cased [] = False"
| "followed_by_cased (c # cs) = (if case_ignorable c then followed_by_cased cs else cased c)"

definition final_sigma :: "nat list \<Rightarrow> nat list \<Rightarrow> bool" where
  "final_sigma preceding following \<longleftrightarrow>
     followed_by_cased preceding \<and> \<not> followed_by_cased following"

definition lowercase_mapping :: "nat list \<Rightarrow> nat \<Rightarrow> nat list \<Rightarrow> nat list" where
  "lowercase_mapping preceding c following =
     (if c = 0x3A3 then [if final_sigma preceding following then 0x3C2 else 0x3C3]
      else if c = 0x130 then [0x69, 0x307]
      else [simple_lowercase c])"

fun lowercase_from :: "nat list \<Rightarrow> nat list \<Rightarrow> nat list" where
  "lowercase_from preceding [] = []"
| "lowercase_from preceding (c # following) =
     lowercase_mapping preceding c following @ lowercase_from (c # preceding) following"

definition toLowerCase :: "jsstring \<Rightarrow> jsstring" where
  "toLowerCase s = concat (map utf16_encode_cp (lowercase_from [] (code_points s)))"

text \<open>The white space and line terminators that \<open>trim()\<close> removes from both ends.\<close>

definition is_white_space :: "jschar \<Rightarrow> bool" where
  "is_white_space c \<longleftrightarrow>
     (let n = unat c in
      (0x09 \<le> n \<and> n \<le> 0x0D) \<or> n = 0x20 \<or> n = 0xA0 \<or> n = 0x1680
      \<or> (0x2000 \<le> n \<and> n \<le> 0x200A) \<or> n = 0x2028 \<or> n = 0x2029 \<or> n = 0x202F
      \<or> n = 0x205F \<or> n = 0x3000 \<or> n = 0xFEFF)"

definition trim :: "jsstring \<Rightarrow> jsstring" where
  "trim s = rev (dropWhile is_white_space (rev (dropWhile is_white_space s)))"

text \<open>\<open>generateHash(data, salt?)\<close>: the guard is
  \<open>!data || typeof data !== "string"\<close>; the salt, when given, is hashed before the
  data.\<close>

definition generateHash :: "jsval \<Rightarrow> byte list option \<Rightarrow> error + HashResult" where
  "generateHash data salt =
     (case data of
        Str s \<Rightarrow>
          if s = [] then Inl (Error (Message ''Invalid data: must be a non-empty string''))
          else Inr \<lparr>hash = hex_encode (sha256 ((case salt of None \<Rightarrow> [] | Some b \<Rightarrow> b)
                                                  @ utf8_encode s)),
                     algorithm = ''sha256''\<rparr>
      | _ \<Rightarrow> Inl (Error (Message ''Invalid data: must be a non-empty string'')))"

definition generateDeterministicHash :: "jsval \<Rightarrow> error + jsstring" where
  "generateDeterministicHash data =
     (case data of
        Str s \<Rightarrow>
          if s = [] then Inl (Error (Message ''Invalid data: must be a non-empty string''))
          else Inr (hex_encode (sha256 (utf8_encode (trim (toLowerCase s)))))
      | _ \<Rightarrow> Inl (Error (Message ''Invalid data: must be a non-empty string'')))"

fun generateHash_each :: "jsval list \<Rightarrow> byte list option \<Rightarrow> error + HashResult list" where
  "generateHash_each [] salt = Inr []"
| "generateHash_each (d # ds) salt =
     (case generateHash d salt of
        Inl e \<Rightarrow> Inl e
      | Inr h \<Rightarrow> (case generateHash_each ds salt of Inl e \<Rightarrow> Inl e | Inr hs \<Rightarrow> Inr (h # hs)))"

definition generateHashBatch :: "jsval list \<Rightarrow> byte list option \<Rightarrow> error + HashResult list" where
  "generateHashBatch dataItems salt =
     (if length dataItems > BATCH_LIMITS_HASH_GENERATION then
        Inl (Error (BatchSize (length dataItems) BATCH_LIMITS_HASH_GENERATION))
      else generateHash_each dataItems salt)"

fun generateDeterministicHash_each :: "jsval list \<Rightarrow> error + jsstring list" where
  "generateDeterministicHash_each [] = Inr []"
| "generateDeterministicHash_each (d # ds) =
     (case generateDeterministicHash d of
        Inl e \<Rightarrow> Inl e
      | Inr h \<Rightarrow>
          (case generateDeterministicHash_each ds of Inl e \<Rightarrow> Inl e | Inr hs \<Rightarrow> Inr (h # hs)))"

definition generateDeterministicHashBatch :: "jsval list \<Rightarrow> error + jsstring list" where
  "generateDeterministicHashBatch dataItems =
     (if length dataItems > BATCH_LIMITS_HASH_GENERATION then
        Inl (Error (BatchSize (length dataItems) BATCH_LIMITS_HASH_GENERATION))
      else generateDeterministicHash_each dataItems)"

definition createUniqueConstraintHash :: "jsval \<Rightarrow> error + jsstring" where
  "createUniqueConstraintHash data = generateDeterministicHash data"

text \<open>\<open>isValidHash(hash)\<close>: the pattern \<open>/^[a-f0-9]{64}$/i\<close>.\<close>

definition is_hex_char :: "jschar \<Rightarrow> bool" where
  "is_hex_char c \<longleftrightarrow>
     (let n = unat c in
      (0x30 \<le> n \<and> n \<le> 0x39) \<or> (0x61 \<le> n \<and> n \<le> 0x66) \<or> (0x41 \<le> n \<and> n \<le> 0x46))"

definition isValidHash :: "jsval \<Rightarrow> bool" where
  "isValidHash h =
     (case h of Str s \<Rightarrow> s \<noteq> [] \<and> length s = 64 \<and> list_all is_hex_char s | _ \<Rightarrow> False)"

section \<open>The key cache (\<open>keys.ts\<close>)\<close>

record EncryptionKey =
  key_bytes :: "byte list"
  keyId :: jsstring
  version :: int

record KeyCacheEntry =
  entry_key :: EncryptionKey
  timestamp :: nat
  ttl :: nat

text \<open>
  \<open>keyCache\<close> is a \<open>Map\<close> from strings to entries: an association list in insertion
  order. \<open>set\<close> on a key already there replaces the value in place, on a new key it
  appends; \<open>keys().next().value\<close> is the first key. The clock \<open>Date.now()\<close> is a
  parameter, in milliseconds.
\<close>

type_synonym keyCache = "(jsstring \<times> KeyCacheEntry) list"

fun Map_get :: "keyCache \<Rightarrow> jsstring \<Rightarrow> KeyCacheEntry option" where
  "Map_get [] k = None"
| "Map_get ((k', e) # c) k = (if k' = k then Some e else Map_get c k)"

fun Map_delete :: "jsstring \<Rightarrow> keyCache \<Rightarrow> keyCache" where
  "Map_delete k [] = []"
| "Map_delete k ((k', e) # c) = (if k' = k then c else (k', e) # Map_delete k c)"

fun Map_set :: "jsstring \<Rightarrow> KeyCacheEntry \<Rightarrow> keyCache \<Rightarrow> keyCache" where
  "Map_set k e [] = [(k, e)]"
| "Map_set k e ((k', e') # c) = (if k' = k then (k, e) # c else (k', e') # Map_set k e c)"

text \<open>
  The type \<open>EncryptionKeyPath\<close> of \<open>types.ts\<close>: the values of \<open>ENCRYPTION_KEY_PATHS\<close>.
  It is the type of the key path of \<open>getEncryptionKey\<close>, the one caller of \<open>getCachedKey\<close>
  and \<open>cacheKey\<close>.
\<close>

datatype EncryptionKeyPath = NAMES | PHONE | EMAIL | ACADEMIC | PROFESSIONAL

fun ENCRYPTION_KEY_PATHS :: "EncryptionKeyPath \<Rightarrow> jsstring" where
  "ENCRYPTION_KEY_PATHS NAMES = js ''/app/encryption/names-key''"
| "ENCRYPTION_KEY_PATHS PHONE = js ''/app/encryption/phone-key''"
| "ENCRYPTION_KEY_PATHS EMAIL = js ''/app/encryption/email-key''"
| "ENCRYPTION_KEY_PATHS ACADEMIC = js ''/app/encryption/academic-key''"
| "ENCRYPTION_KEY_PATHS PROFESSIONAL = js ''/app/encryption/professional-key''"

definition DEFAULT_CACHE_TTL :: nat where
  "DEFAULT_CACHE_TTL = 5 * 60 * 1000"

definition MAX_CACHE_SIZE :: nat where
  "MAX_CACHE_SIZE = 10"

definition getCachedKey :: "jsstring \<Rightarrow> nat \<Rightarrow> keyCache \<Rightarrow> EncryptionKey option \<times> keyCache" where
  "getCachedKey keyPath now c =
     (case Map_get c keyPath of
        None \<Rightarrow> (None, c)
      | Some cacheEntry \<Rightarrow>
          if now > timestamp cacheEntry + ttl cacheEntry then (None, Map_delete keyPath c)
          else (Some (entry_key cacheEntry), c))"

text \<open>\<open>cacheKey(keyPath, key, ttl)\<close>: the guard \<open>if (oldestKey)\<close> is the truth value of
  a string, false for the empty string (and for the \<open>undefined\<close> of an empty map).\<close>

definition cacheKey :: "jsstring \<Rightarrow> EncryptionKey \<Rightarrow> nat \<Rightarrow> nat \<Rightarrow> keyCache \<Rightarrow> keyCache" where
  "cacheKey keyPath k life now c =
     Map_set keyPath \<lparr>entry_key = k, timestamp = now, ttl = life\<rparr>
       (if length c \<ge> MAX_CACHE_SIZE then
          (case c of
             [] \<Rightarrow> c
           | (oldestKey, _) # _ \<Rightarrow> if oldestKey \<noteq> [] then Map_delete oldestKey c else c)
        else c)"

definition clearKeyCache :: "keyCache \<Rightarrow> keyCache" where
  "clearKeyCache c = []"

definition getKeyCacheStats :: "keyCache \<Rightarrow> nat \<times> jsstring list" where
  "getKeyCacheStats c = (length c, map fst c)"

section \<open>The test double (\<open>mock.ts\<close>)\<close>

definition mock_prefix :: jsstring where
  "mock_prefix = js ''mock_encrypted_''"

text \<open>
  \<open>mockEncrypt(data)\<close>: a falsy argument gives the empty string; \<open>Buffer.from(data)\<close>
  takes a string and throws a \<open>TypeError\<close> on a number or a boolean.
\<close>

definition mockEncrypt :: "jsval \<Rightarrow> error + jsstring" where
  "mockEncrypt data =
     (if falsy data then Inr []
      else case data of
             Str s \<Rightarrow> Inr (mock_prefix @ base64_encode (utf8_encode s))
           | _ \<Rightarrow> Inl (TypeError (Message ''The first argument must be of type string'')))"

text \<open>
  \<open>mockDecrypt(encryptedData)\<close>: \<open>startsWith\<close> exists on strings only, the call on
  another truthy value throws a \<open>TypeError\<close>. \<open>replace\<close> removes the first occurrence
  of the prefix, which is the leading one. Neither \<open>Buffer.from(_, "base64")\<close> nor
  \<open>toString("utf8")\<close> throws, so the inner \<open>catch\<close> is never entered.
\<close>

definition mockDecrypt :: "jsval \<Rightarrow> error + jsstring" where
  "mockDecrypt encryptedData =
     (if falsy encryptedData then Inr []
      else case encryptedData of
             Str s \<Rightarrow>
               if take (length mock_prefix) s \<noteq> mock_prefix then Inr s
               else Inr (utf8_toString (base64_decode (drop (length mock_prefix) s)))
           | _ \<Rightarrow> Inl (TypeError (Message ''encryptedData.startsWith is not a function'')))"

section \<open>The interception layer (\<open>client-extension.ts\<close>)\<close>

record EncryptionConfig =
  fieldName :: string
  encryptedField :: string
  hashField :: string
  keyPath :: string

definition field_config :: "string \<Rightarrow> string \<Rightarrow> EncryptionConfig" where
  "field_config name path =
     \<lparr>fieldName = name, encryptedField = name @ ''_encrypted'', hashField = name @ ''_hash'',
      keyPath = path\<rparr>"

definition ENCRYPTED_FIELD_MAP :: "(string \<times> EncryptionConfig list) list" where
  "ENCRYPTED_FIELD_MAP =
     [(''User'',
       [field_config ''firstName'' ''/app/encryption/names-key'',
        field_config ''lastName'' ''/app/encryption/names-key'',
        field_config ''email'' ''/app/encryption/email-key'',
        field_config ''phone'' ''/app/encryption/phone-key'',
        field_config ''phoneVerificationCode'' ''/app/encryption/temp-key'']),
      (''StudentInfo'',
       [field_config ''studentId'' ''/app/encryption/ids-key'',
        field_config ''major'' ''/app/encryption/academic-key'',
        field_config ''minor'' ''/app/encryption/academic-key'',
        field_config ''degreeProgram'' ''/app/encryption/academic-key'']),
      (''AlumniInfo'',
       [field_config ''degreeObtained'' ''/app/encryption/academic-key'',
        field_config ''currentEmployer'' ''/app/encryption/employment-key'',
        field_config ''jobTitle'' ''/app/encryption/employment-key'',
        field_config ''linkedInUrl'' ''/app/encryption/urls-key'']),
      (''IndustryProfessionalInfo'',
       [field_config ''companyName'' ''/app/encryption/employment-key'',
        field_config ''jobTitle'' ''/app/encryption/employment-key'',
        field_config ''linkedInUrl'' ''/app/encryption/urls-key''])]"

text \<open>
  A record passed to or returned by the persistence backend: property names to values.
  Reading a property that is not there gives \<open>undefined\<close>.
\<close>

type_synonym obj = "string \<rightharpoonup> jsval"

definition get_prop :: "obj \<Rightarrow> string \<Rightarrow> jsval" where
  "get_prop r name = (case r name of None \<Rightarrow> Undefined | Some v \<Rightarrow> v)"

text \<open>
  The surroundings of one call: whether \<open>isMockMode()\<close> holds, and the two functions
  \<open>encryptData\<close> and \<open>decryptData\<close> that the layer imports from \<open>./crypto\<close>. That module
  does not define them, so they are parameters: given a value and a key path they return
  a string or throw.
\<close>

record env =
  isMockMode :: bool
  encryptData :: "jsval \<Rightarrow> string \<Rightarrow> error + jsstring"
  decryptData :: "jsval \<Rightarrow> string \<Rightarrow> error + jsstring"

text \<open>
  The two branches on \<open>isMockMode()\<close>: the test double, or the imported function with
  the key path of the field.
\<close>

definition encrypt_value :: "env \<Rightarrow> EncryptionConfig \<Rightarrow> jsval \<Rightarrow> error + jsstring" where
  "encrypt_value ev config plainValue =
     (if isMockMode ev then mockEncrypt plainValue
      else encryptData ev plainValue (keyPath config))"

definition decrypt_value :: "env \<Rightarrow> EncryptionConfig \<Rightarrow> jsval \<Rightarrow> error + jsstring" where
  "decrypt_value ev config stored =
     (if isMockMode ev then mockDecrypt stored
      else decryptData ev stored (keyPath config))"

text \<open>
  The body of the loop of \<open>transformDataForStorage\<close> for one configured field whose value
  is neither \<open>undefined\<close> nor \<open>null\<close>: the \<open>try\<close> block encrypts and hashes and then
  rewrites the copy; the \<open>catch\<close> block stores the value as it is, hashes again (which may
  throw out of the function) and removes the plain property.
\<close>

definition store_field :: "env \<Rightarrow> EncryptionConfig \<Rightarrow> jsval \<Rightarrow> obj \<Rightarrow> error + obj" where
  "store_field ev config plainValue transformedData =
     (case (case encrypt_value ev config plainValue of
              Inl e \<Rightarrow> Inl e
            | Inr encryptedValue \<Rightarrow>
                (case createUniqueConstraintHash plainValue of
                   Inl e \<Rightarrow> Inl e
                 | Inr hashValue \<Rightarrow> Inr (encryptedValue, hashValue))) of
        Inr (encryptedValue, hashValue) \<Rightarrow>
          Inr (((transformedData (fieldName config := None))
                  (encryptedField config \<mapsto> Str encryptedValue))
                  (hashField config \<mapsto> Str hashValue))
      | Inl _ \<Rightarrow>
          (case createUniqueConstraintHash plainValue of
             Inl e \<Rightarrow> Inl e
           | Inr hashValue \<Rightarrow>
               Inr (((transformedData (encryptedField config \<mapsto> plainValue))
                       (hashField config \<mapsto> Str hashValue))
                       (fieldName config := None))))"

fun store_fields :: "env \<Rightarrow> obj \<Rightarrow> EncryptionConfig list \<Rightarrow> obj \<Rightarrow> error + obj" where
  "store_fields ev data [] transformedData = Inr transformedData"
| "store_fields ev data (config # configs) transformedData =
     (if get_prop data (fieldName config) \<noteq> Undefined \<and> get_prop data (fieldName config) \<noteq> Null then
        (case store_field ev config (get_prop data (fieldName config)) transformedData of
           Inl e \<Rightarrow> Inl e
         | Inr t \<Rightarrow> store_fields ev data configs t)
      else store_fields ev data configs transformedData)"

definition transformDataForStorage :: "env \<Rightarrow> string \<Rightarrow> obj \<Rightarrow> error + obj" where
  "transformDataForStorage ev modelName data =
     (case map_of ENCRYPTED_FIELD_MAP modelName of
        None \<Rightarrow> Inr data
      | Some configs \<Rightarrow> store_fields ev data configs data)"

text \<open>
  The loop of \<open>transformDataForReading\<close> on one fetched record: a failed decryption is
  caught and the stored value is handed out under the plain name.
\<close>

definition read_field :: "env \<Rightarrow> EncryptionConfig \<Rightarrow> jsval \<Rightarrow> obj \<Rightarrow> obj" where
  "read_field ev config stored transformedResult =
     (case decrypt_value ev config stored of
        Inr decryptedValue \<Rightarrow> transformedResult (fieldName config \<mapsto> Str decryptedValue)
      | Inl _ \<Rightarrow> transformedResult (fieldName config \<mapsto> stored))"

fun read_fields :: "env \<Rightarrow> obj \<Rightarrow> EncryptionConfig list \<Rightarrow> obj \<Rightarrow> obj" where
  "read_fields ev result [] transformedResult = transformedResult"
| "read_fields ev result (config # configs) transformedResult =
     (if get_prop result (encryptedField config) \<noteq> Undefined
         \<and> get_prop result (encryptedField config) \<noteq> Null then
        read_fields ev result configs
          (read_field ev config (get_prop result (encryptedField config)) transformedResult)
      else read_fields ev result configs transformedResult)"

text \<open>What a query hands back: \<open>null\<close>, one record, or an array of records.\<close>

datatype fetched = Nothing | Row obj | Rows "obj list"

definition transformRecordForReading :: "env \<Rightarrow> string \<Rightarrow> obj \<Rightarrow> obj" where
  "transformRecordForReading ev modelName result =
     (case map_of ENCRYPTED_FIELD_MAP modelName of
        None \<Rightarrow> result
      | Some configs \<Rightarrow> read_fields ev result configs result)"

definition transformDataForReading :: "env \<Rightarrow> string \<Rightarrow> fetched \<Rightarrow> fetched" where
  "transformDataForReading ev modelName result =
     (case result of
        Nothing \<Rightarrow> Nothing
      | Row r \<Rightarrow> Row (transformRecordForReading ev modelName r)
      | Rows rs \<Rightarrow> Rows (map (transformRecordForReading ev modelName) rs))"

text \<open>
  The write handlers of the extension. \<open>query\<close> is the persistence backend: it receives
  the rewritten arguments and returns what it fetched, or throws. Of the arguments only
  the records to be written are represented.
\<close>

definition create :: "env \<Rightarrow> string \<Rightarrow> (obj option \<Rightarrow> error + fetched) \<Rightarrow> obj option \<Rightarrow> error + fetched" where
  "create ev model query data =
     (case data of
        None \<Rightarrow> map_sum id (transformDataForReading ev model) (query None)
      | Some d \<Rightarrow>
          (case transformDataForStorage ev model d of
             Inl e \<Rightarrow> Inl e
           | Inr d' \<Rightarrow> map_sum id (transformDataForReading ev model) (query (Some d'))))"

definition update :: "env \<Rightarrow> string \<Rightarrow> (obj option \<Rightarrow> error + fetched) \<Rightarrow> obj option \<Rightarrow> error + fetched" where
  "update ev model query data = create ev model query data"

definition upsert ::
  "env \<Rightarrow> string \<Rightarrow> (obj option \<times> obj option \<Rightarrow> error + fetched) \<Rightarrow> obj option \<times> obj option
   \<Rightarrow> error + fetched" where
  "upsert ev model query args =
     (case (case fst args of
              None \<Rightarrow> Inr None
            | Some c \<Rightarrow> map_sum id Some (transformDataForStorage ev model c)) of
        Inl e \<Rightarrow> Inl e
      | Inr c' \<Rightarrow>
          (case (case snd args of
                   None \<Rightarrow> Inr None
                 | Some u \<Rightarrow> map_sum id Some (transformDataForStorage ev model u)) of
             Inl e \<Rightarrow> Inl e
           | Inr u' \<Rightarrow> map_sum id (transformDataForReading ev model) (query (c', u'))))"

fun store_each :: "env \<Rightarrow> string \<Rightarrow> obj list \<Rightarrow> error + obj list" where
  "store_each ev model [] = Inr []"
| "store_each ev model (d # ds) =
     (case transformDataForStorage ev model d of
        Inl e \<Rightarrow> Inl e
      | Inr d' \<Rightarrow> (case store_each ev model ds of Inl e \<Rightarrow> Inl e | Inr ds' \<Rightarrow> Inr (d' # ds')))"

text \<open>\<open>createMany\<close>: \<open>args.data\<close> is one record or an array of records.\<close>

definition createMany ::
  "env \<Rightarrow> string \<Rightarrow> ((obj + obj list) option \<Rightarrow> error + 'r) \<Rightarrow> (obj + obj list) option
   \<Rightarrow> error + 'r" where
  "createMany ev model query data =
     (case data of
        None \<Rightarrow> query None
      | Some (Inr items) \<Rightarrow>
          (case store_each ev model items of
             Inl e \<Rightarrow> Inl e
           | Inr items' \<Rightarrow> query (Some (Inr items')))
      | Some (Inl d) \<Rightarrow>
          (case transformDataForStorage ev model d of
             Inl e \<Rightarrow> Inl e
           | Inr d' \<Rightarrow> query (Some (Inl d'))))"

definition updateMany :: "env \<Rightarrow> string \<Rightarrow> (obj option \<Rightarrow> error + 'r) \<Rightarrow> obj option \<Rightarrow> error + 'r" where
  "updateMany ev model query data =
     (case data of
        None \<Rightarrow> query None
      | Some d \<Rightarrow>
          (case transformDataForStorage ev model d of
             Inl e \<Rightarrow> Inl e
           | Inr d' \<Rightarrow> query (Some d')))"

section \<open>Predicates used in the statements\<close>

text \<open>A Unicode scalar value: a code point outside the surrogate range.\<close>

definition scalar_value :: "nat \<Rightarrow> bool" where
  "scalar_value c \<longleftrightarrow> c < 0x110000 \<and> \<not> (0xD800 \<le> c \<and> c \<le> 0xDFFF)"

text \<open>\<open>s.isWellFormed()\<close>: every surrogate of the string is half of a pair.\<close>

fun isWellFormed :: "jsstring \<Rightarrow> bool" where
  "isWellFormed [] = True"
| "isWellFormed [u] = (\<not> is_high_surrogate u \<and> \<not> is_low_surrogate u)"
| "isWellFormed (u # v # r) =
     (if is_high_surrogate u \<and> is_low_surrogate v then isWellFormed r
      else \<not> is_high_surrogate u \<and> \<not> is_low_surrogate u \<and> isWellFormed (v # r))"

text \<open>
  The lower-case form of a code point that stands alone, and two code points that are the
  same letter up to case: they have the same lower-case form. Two strings differ only in
  letter case when their code points are pairwise such.
\<close>

definition lower_form :: "nat \<Rightarrow> nat list" where
  "lower_form c = lowercase_mapping [] c []"

definition same_letter :: "nat \<Rightarrow> nat \<Rightarrow> bool" where
  "same_letter c d \<longleftrightarrow> lower_form c = lower_form d"

text \<open>
  The state of the key cache that the operations keep: the key paths are pairwise
  different (it is a \<open>Map\<close>), none of them is the empty string, and there are at most
  \<open>MAX_CACHE_SIZE\<close> of them.
\<close>

definition cache_ok :: "keyCache \<Rightarrow> bool" where
  "cache_ok c \<longleftrightarrow> distinct (map fst c) \<and> [] \<notin> fst ` set c \<and> length c \<le> MAX_CACHE_SIZE"

text \<open>A key record for the examples.\<close>

definition example_key :: EncryptionKey where
  "example_key = \<lparr>key_bytes = replicate 32 0, keyId = js ''example'', version = 1\<rparr>"

text \<open>
  The three properties that a configured field owns, and the values under which the write
  path does not throw: none (\<open>undefined\<close> or \<open>null\<close>) or a non-empty string.
\<close>

definition columns :: "EncryptionConfig \<Rightarrow> string list" where
  "columns config = [fieldName config, encryptedField config, hashField config]"

fun storable :: "jsval \<Rightarrow> bool" where
  "storable Undefined = True"
| "storable Null = True"
| "storable (Str s) = (s \<noteq> [])"
| "storable _ = False"

text \<open>
  Two surroundings for the examples: the test double switched on, and production mode with
  an \<open>encryptData\<close> that throws.
\<close>

definition mock_env :: env where
  "mock_env = \<lparr>isMockMode = True,
     encryptData = (\<lambda>v path. Inl (EncryptionError (Message ''Encryption failed''))),
     decryptData = (\<lambda>v path. Inl (DecryptionError (Message ''Decryption failed'')))\<rparr>"

definition failing_env :: env where
  "failing_env = \<lparr>isMockMode = False,
     encryptData = (\<lambda>v path. Inl (EncryptionError (Message ''Encryption failed''))),
     decryptData = (\<lambda>v path. Inl (DecryptionError (Message ''Decryption failed'')))\<rparr>"

section \<open>Batch ceilings\<close>

text \<open>
  C5. Each batch operation compares the length of its input with its ceiling before it
  looks at any item. Above the ceiling it fails with the error of its component, whatever
  the items and the key are: \<open>encryptBatch\<close> above 50 with an \<open>EncryptionError\<close> and
  without drawing a random byte, \<open>decryptBatch\<close> above 25 with a \<open>DecryptionError\<close>, the
  two hash batches above 100 with an \<open>Error\<close>. Up to the ceiling the items are processed.
\<close>

theorem batch_ceilings:
  "(50 < length ps \<longrightarrow>
      encryptBatch ps k g = (Inl (EncryptionError (BatchSize (length ps) 50)), g))
   \<and> (length ps \<le> 50 \<longrightarrow> encryptBatch ps k g = encrypt_each ps k g)
   \<and> (25 < length xs \<longrightarrow>
      decryptBatch xs k = Inl (DecryptionError (BatchSize (length xs) 25)))
   \<and> (length xs \<le> 25 \<longrightarrow> decryptBatch xs k = decrypt_each xs k)
   \<and> (100 < length ds \<longrightarrow>
      generateHashBatch ds salt = Inl (Error (BatchSize (length ds) 100))
      \<and> generateDeterministicHashBatch ds = Inl (Error (BatchSize (length ds) 100)))
   \<and> (length ds \<le> 100 \<longrightarrow>
      generateHashBatch ds salt = generateHash_each ds salt
      \<and> generateDeterministicHashBatch ds = generateDeterministicHash_each ds)"
  by (simp add: encryptBatch_def decryptBatch_def generateHashBatch_def
      generateDeterministicHashBatch_def BATCH_LIMITS_ENCRYPTION_def BATCH_LIMITS_DECRYPTION_def
      BATCH_LIMITS_HASH_GENERATION_def)

theorem batch_ceilings_witness:
  "50 < length (replicate 51 (Str (js ''test message'')))
   \<and> encryptBatch (replicate 51 (Str (js ''test message''))) [] (\<lambda>i. 7)
       = (Inl (EncryptionError (BatchSize 51 50)), \<lambda>i. 7)
   \<and> length (replicate 50 (Str (js ''test message''))) \<le> 50
   \<and> encryptBatch (replicate 50 (Str (js ''test message''))) [] (\<lambda>i. 7)
       = encrypt_each (replicate 50 (Str (js ''test message''))) [] (\<lambda>i. 7)
   \<and> 25 < length (replicate 26 \<lparr>encrypted = [], iv = [], authTag = []\<rparr>)
   \<and> decryptBatch (replicate 26 \<lparr>encrypted = [], iv = [], authTag = []\<rparr>) []
       = Inl (DecryptionError (BatchSize 26 25))
   \<and> length (replicate 25 \<lparr>encrypted = [], iv = [], authTag = []\<rparr>) \<le> 25
   \<and> decryptBatch (replicate 25 \<lparr>encrypted = [], iv = [], authTag = []\<rparr>) []
       = decrypt_each (replicate 25 \<lparr>encrypted = [], iv = [], authTag = []\<rparr>) []
   \<and> 100 < length (replicate 101 Null)
   \<and> generateHashBatch (replicate 101 Null) None = Inl (Error (BatchSize 101 100))
   \<and> generateDeterministicHashBatch (replicate 101 Null) = Inl (Error (BatchSize 101 100))
   \<and> length (replicate 100 Null) \<le> 100
   \<and> generateHashBatch (replicate 100 Null) None = generateHash_each (replicate 100 Null) None
   \<and> generateDeterministicHashBatch (replicate 100 Null)
       = generateDeterministicHash_each (replicate 100 Null)"
proof -
  have above: "50 < length (replicate 51 (Str (js ''test message'')))"
    "25 < length (replicate 26 \<lparr>encrypted = [], iv = [], authTag = []\<rparr>)"
    "100 < length (replicate 101 Null)"
    by simp_all
  have upto: "length (replicate 50 (Str (js ''test message''))) \<le> 50"
    "length (replicate 25 \<lparr>encrypted = [], iv = [], authTag = []\<rparr>) \<le> 25"
    "length (replicate 100 Null) \<le> 100"
    by simp_all
  show ?thesis
    using above upto
      batch_ceilings [of "replicate 51 (Str (js ''test message''))" "[]" "\<lambda>i. 7"
        "replicate 26 \<lparr>encrypted = [], iv = [], authTag = []\<rparr>" "replicate 101 Null" None]
      batch_ceilings [of "replicate 50 (Str (js ''test message''))" "[]" "\<lambda>i. 7"
        "replicate 25 \<lparr>encrypted = [], iv = [], authTag = []\<rparr>" "replicate 100 Null" None]
    by (simp only: length_replicate simp_thms)
qed

section \<open>The byte mixing and the text encodings\<close>

lemma length_xor_bytes: "length (xor_bytes d k n) = length d"
  by (simp add: xor_bytes_def)

lemma xor_bytes_involution: "xor_bytes (xor_bytes d k n) k n = d"
proof (rule nth_equalityI)
  show "length (xor_bytes (xor_bytes d k n) k n) = length d"
    by (simp add: length_xor_bytes)
next
  fix i assume "i < length (xor_bytes (xor_bytes d k n) k n)"
  then have i: "i < length d" by (simp add: length_xor_bytes)
  have "(d ! i XOR k ! (i mod length k) XOR n ! (i mod length n))
          XOR k ! (i mod length k) XOR n ! (i mod length n) = d ! i"
    by (simp add: ac_simps)
  with i show "xor_bytes (xor_bytes d k n) k n ! i = d ! i"
    by (simp add: xor_bytes_def)
qed

lemma unbase64_base64_char_all:
  "\<forall>n \<in> set [0..<64]. unbase64 (base64_char n) = Some n \<and> base64_char n \<noteq> 0x3D"
  by code_simp

lemma unbase64_base64_char:
  assumes "n < 64"
  shows "unbase64 (base64_char n) = Some n" and "base64_char n \<noteq> 0x3D"
proof -
  have "n \<in> set [0..<64]" using assms by simp
  with unbase64_base64_char_all
  have "unbase64 (base64_char n) = Some n \<and> base64_char n \<noteq> 0x3D" by blast
  then show "unbase64 (base64_char n) = Some n" and "base64_char n \<noteq> 0x3D" by blast+
qed

lemma sextets_char:
  "n < 64 \<Longrightarrow> sextets (base64_char n # cs) = n # sextets cs"
  by (simp add: unbase64_base64_char)

lemma sextets_pad: "sextets (0x3D # cs) = []"
  by simp

lemma sextet_bounds:
  fixes a b c :: byte
  shows "unat a div 4 < 64" "unat a mod 4 * 16 + unat b div 16 < 64"
    "unat b mod 16 * 4 + unat c div 64 < 64" "unat c mod 64 < 64"
    "unat a mod 4 * 16 < 64" "unat b mod 16 * 4 < 64"
proof -
  have lt: "unat a < 256" "unat b < 256" "unat c < 256"
    using unsigned_less [of a] unsigned_less [of b] unsigned_less [of c] by simp_all
  have m: "unat a mod 4 < 4" "unat b mod 16 < 16" by simp_all
  from lt show "unat a div 4 < 64" by simp
  from lt m show "unat a mod 4 * 16 + unat b div 16 < 64" by simp
  from lt m show "unat b mod 16 * 4 + unat c div 64 < 64" by simp
  show "unat c mod 64 < 64" by simp
  from m show "unat a mod 4 * 16 < 64" by simp
  from m show "unat b mod 16 * 4 < 64" by simp
qed

lemma recombine_nat:
  fixes x y z :: nat
  assumes "y < 256" "z < 256"
  shows "x div 4 * 4 + (x mod 4 * 16 + y div 16) div 16 = x"
    and "(x mod 4 * 16 + y div 16) mod 16 * 16 + (y mod 16 * 4 + z div 64) div 4 = y"
    and "(y mod 16 * 4 + z div 64) mod 4 * 64 + z mod 64 = z"
    and "x div 4 * 4 + (x mod 4 * 16) div 16 = x"
    and "(x mod 4 * 16 + y div 16) mod 16 * 16 + (y mod 16 * 4) div 4 = y"
proof -
  have y16: "y div 16 < 16" and z64: "z div 64 < 4" using assms by simp_all
  show "x div 4 * 4 + (x mod 4 * 16 + y div 16) div 16 = x"
    using y16 by simp
  show "(x mod 4 * 16 + y div 16) mod 16 * 16 + (y mod 16 * 4 + z div 64) div 4 = y"
    using y16 z64 by simp
  show "(y mod 16 * 4 + z div 64) mod 4 * 64 + z mod 64 = z"
    using z64 by simp
  show "x div 4 * 4 + (x mod 4 * 16) div 16 = x"
    by simp
  show "(x mod 4 * 16 + y div 16) mod 16 * 16 + (y mod 16 * 4) div 4 = y"
    using y16 by simp
qed

lemma unat_byte_less: "unat (a :: byte) < 256"
  using unsigned_less [of a] by simp

lemma bytes_of_sextets:
  fixes a b c :: byte
  shows "of_nat (unat a div 4 * 4 + (unat a mod 4 * 16 + unat b div 16) div 16) = a"
    and "of_nat ((unat a mod 4 * 16 + unat b div 16) mod 16 * 16
                 + (unat b mod 16 * 4 + unat c div 64) div 4) = b"
    and "of_nat ((unat b mod 16 * 4 + unat c div 64) mod 4 * 64 + unat c mod 64) = c"
    and "of_nat (unat a div 4 * 4 + (unat a mod 4 * 16) div 16) = a"
    and "of_nat ((unat a mod 4 * 16 + unat b div 16) mod 16 * 16 + (unat b mod 16 * 4) div 4) = b"
  by (simp_all only: recombine_nat [OF unat_byte_less unat_byte_less] of_nat_unat ucast_id)

lemma base64_decode_encode: "base64_decode (base64_encode bs) = bs"
  unfolding base64_decode_def
proof (induction bs rule: base64_encode.induct)
  case 1
  show ?case by simp
next
  case (2 a)
  have "sextets (base64_encode [a]) = [unat a div 4, unat a mod 4 * 16]"
    by (simp only: base64_encode.simps append_Cons append_Nil sextets_char sextet_bounds
        sextets_pad)
  then show ?case
    by (simp only: sextets_bytes.simps bytes_of_sextets)
next
  case (3 a b)
  have "sextets (base64_encode [a, b])
      = [unat a div 4, unat a mod 4 * 16 + unat b div 16, unat b mod 16 * 4]"
    by (simp only: base64_encode.simps append_Cons append_Nil sextets_char sextet_bounds
        sextets_pad)
  then show ?case
    by (simp only: sextets_bytes.simps bytes_of_sextets)
next
  case (4 a b c r)
  have "sextets (base64_encode (a # b # c # r))
      = unat a div 4 # (unat a mod 4 * 16 + unat b div 16)
        # (unat b mod 16 * 4 + unat c div 64) # unat c mod 64 # sextets (base64_encode r)"
    by (simp only: base64_encode.simps append_Cons append_Nil sextets_char sextet_bounds
        sextets_pad)
  then show ?case
    using 4 by (simp only: sextets_bytes.simps bytes_of_sextets append_Cons append_Nil)
qed

lemma base64_encode_inject: "base64_encode xs = base64_encode ys \<longleftrightarrow> xs = ys"
proof
  assume "base64_encode xs = base64_encode ys"
  then have "base64_decode (base64_encode xs) = base64_decode (base64_encode ys)" by simp
  then show "xs = ys" by (simp only: base64_decode_encode)
qed simp

lemma base64_encode_eq_Nil: "base64_encode bs = [] \<longleftrightarrow> bs = []"
  by (cases bs rule: base64_encode.cases) (simp_all only: base64_encode.simps append_Cons list.simps simp_thms)

lemma unat_byte_of_nat: "n < 256 \<Longrightarrow> unat (of_nat n :: byte) = n"
  by (simp add: unat_of_nat)

lemma mod_shift: "h < m \<Longrightarrow> (q * m + h) mod m = (h::nat)"
  by simp

lemma utf8_lead_ascii: "n < 0x80 \<Longrightarrow> utf8_lead (of_nat n) = Inl n"
  by (simp add: utf8_lead_def unat_byte_of_nat)

lemma utf8_lead_2: "2 \<le> h \<Longrightarrow> h < 32 \<Longrightarrow> utf8_lead (of_nat (0xC0 + h)) = Inr (h, 1, 0x80, 0xBF)"
proof -
  assume h: "2 \<le> h" "h < 32"
  then have u: "unat (of_nat (0xC0 + h) :: byte) = 0xC0 + h"
    by (intro unat_byte_of_nat) simp
  have m: "(0xC0 + h) mod 0x20 = h" using h mod_shift [of h 32 6] by simp
  show ?thesis
    unfolding utf8_lead_def u Let_def using h m by simp
qed

lemma utf8_lead_3: "h < 16 \<Longrightarrow>
  utf8_lead (of_nat (0xE0 + h))
    = Inr (h, 2, if h = 0 then 0xA0 else 0x80, if h = 13 then 0x9F else 0xBF)"
proof -
  assume h: "h < 16"
  then have u: "unat (of_nat (0xE0 + h) :: byte) = 0xE0 + h"
    by (intro unat_byte_of_nat) simp
  have m: "(0xE0 + h) mod 0x10 = h" using h mod_shift [of h 16 14] by simp
  show ?thesis
    unfolding utf8_lead_def u Let_def using h m by simp
qed

lemma utf8_lead_4: "h < 5 \<Longrightarrow>
  utf8_lead (of_nat (0xF0 + h))
    = Inr (h, 3, if h = 0 then 0x90 else 0x80, if h = 4 then 0x8F else 0xBF)"
proof -
  assume h: "h < 5"
  then have u: "unat (of_nat (0xF0 + h) :: byte) = 0xF0 + h"
    by (intro unat_byte_of_nat) simp
  have m: "(0xF0 + h) mod 0x08 = h" using h mod_shift [of h 8 30] by simp
  show ?thesis
    unfolding utf8_lead_def u Let_def using h m by simp
qed

lemma unat_continuation: "l < 64 \<Longrightarrow> unat (of_nat (0x80 + l) :: byte) = 0x80 + l"
  by (intro unat_byte_of_nat) simp

lemma continuation_mod: "l < 64 \<Longrightarrow> (0x80 + l) mod 0x40 = (l :: nat)"
  using mod_shift [of l 64 2] by simp

text \<open>One continuation byte, read inside a sequence.\<close>

lemma utf8_continue:
  assumes "l < 64" "lo \<le> 0x80 + l" "0x80 + l \<le> hi"
  shows "utf8_decode_from (Some (cp, needed, lo, hi)) (of_nat (0x80 + l) # bs)
     = (if needed = 1 then (cp * 0x40 + l) # utf8_decode_from None bs
        else utf8_decode_from (Some (cp * 0x40 + l, needed - 1, 0x80, 0xBF)) bs)"
  using assms
  by (simp only: utf8_decode_from.simps unat_continuation continuation_mod) simp

lemma utf8_decode_cp_1:
  assumes "c < 0x80"
  shows "utf8_decode_from None (utf8_encode_cp c @ bs) = c # utf8_decode_from None bs"
  using assms by (simp only: utf8_encode_cp_def if_True append_Cons append_Nil utf8_decode_from.simps utf8_lead_ascii sum.case)

lemma utf8_decode_cp_2:
  assumes "0x80 \<le> c" "c < 0x800"
  shows "utf8_decode_from None (utf8_encode_cp c @ bs) = c # utf8_decode_from None bs"
proof -
  define h l where "h = c div 64" and "l = c mod 64"
  have l: "l < 64" by (simp add: l_def)
  have c: "h * 64 + l = c" by (simp add: h_def l_def)
  have h: "2 \<le> h" "h < 32" using assms c l by linarith+
  have enc: "utf8_encode_cp c = [of_nat (0xC0 + h), of_nat (0x80 + l)]"
    using assms by (simp only: utf8_encode_cp_def h_def l_def) simp
  have "utf8_decode_from None (utf8_encode_cp c @ bs)
      = utf8_decode_from (Some (h, 1, 0x80, 0xBF)) (of_nat (0x80 + l) # bs)"
    by (simp only: enc append_Cons append_Nil utf8_decode_from.simps utf8_lead_2 [OF h] sum.case)
  also have "\<dots> = (h * 64 + l) # utf8_decode_from None bs"
    using l by (subst utf8_continue) simp_all
  finally show ?thesis by (simp only: c)
qed


lemma utf8_decode_cp_3:
  assumes "0x800 \<le> c" "c < 0x10000" "\<not> (0xD800 \<le> c \<and> c \<le> 0xDFFF)"
  shows "utf8_decode_from None (utf8_encode_cp c @ bs) = c # utf8_decode_from None bs"
proof -
  define d h m l where "d = c div 64" and "h = d div 64" and "m = d mod 64" and "l = c mod 64"
  have l: "l < 64" and m: "m < 64" by (simp_all add: l_def m_def)
  have c: "d * 64 + l = c" by (simp add: d_def l_def)
  have d: "h * 64 + m = d" by (simp add: h_def m_def)
  have h16: "h < 16" using assms c d l m by linarith
  have lo: "h = 0 \<Longrightarrow> 32 \<le> m" using assms c d l m by linarith
  have hi: "h = 13 \<Longrightarrow> m \<le> 31" using assms c d l m by linarith
  have hdef: "c div 0x1000 = h"
    unfolding h_def d_def by (simp add: div_mult2_eq)
  have enc: "utf8_encode_cp c
      = [of_nat (0xE0 + h), of_nat (0x80 + m), of_nat (0x80 + l)]"
    using assms(1,2) unfolding hdef [symmetric] m_def d_def l_def
    by (simp only: utf8_encode_cp_def) simp
  have "utf8_decode_from None (utf8_encode_cp c @ bs)
      = utf8_decode_from (Some (h, 2, if h = 0 then 0xA0 else 0x80, if h = 13 then 0x9F else 0xBF))
          (of_nat (0x80 + m) # of_nat (0x80 + l) # bs)"
    by (simp only: enc append_Cons append_Nil utf8_decode_from.simps utf8_lead_3 [OF h16]
        sum.case)
  also have "\<dots> = utf8_decode_from (Some (h * 64 + m, 1, 0x80, 0xBF)) (of_nat (0x80 + l) # bs)"
    using m lo hi by (subst utf8_continue) simp_all
  also have "\<dots> = ((h * 64 + m) * 64 + l) # utf8_decode_from None bs"
    using l by (subst utf8_continue) simp_all
  finally show ?thesis by (simp only: c d)
qed

lemma utf8_decode_cp_4:
  assumes "0x10000 \<le> c" "c < 0x110000"
  shows "utf8_decode_from None (utf8_encode_cp c @ bs) = c # utf8_decode_from None bs"
proof -
  define d e h m1 m2 l where "d = c div 64" and "e = d div 64" and "h = e div 64"
    and "m1 = e mod 64" and "m2 = d mod 64" and "l = c mod 64"
  have l: "l < 64" and m1: "m1 < 64" and m2: "m2 < 64" by (simp_all add: l_def m1_def m2_def)
  have c: "d * 64 + l = c" by (simp add: d_def l_def)
  have d: "e * 64 + m2 = d" by (simp add: e_def m2_def)
  have e: "h * 64 + m1 = e" by (simp add: h_def m1_def)
  have h5: "h < 5" using assms c d e l m1 m2 by linarith
  have lo: "h = 0 \<Longrightarrow> 16 \<le> m1" using assms c d e l m1 m2 by linarith
  have hi: "h = 4 \<Longrightarrow> m1 \<le> 15" using assms c d e l m1 m2 by linarith
  have edef: "c div 0x1000 = e"
    unfolding e_def d_def by (simp add: div_mult2_eq)
  have hdef: "c div 0x40000 = h"
    unfolding h_def e_def d_def by (simp add: div_mult2_eq)
  have enc: "utf8_encode_cp c
      = [of_nat (0xF0 + h), of_nat (0x80 + m1), of_nat (0x80 + m2), of_nat (0x80 + l)]"
    using assms(1) unfolding hdef [symmetric] m1_def edef [symmetric] m2_def d_def l_def
    by (simp only: utf8_encode_cp_def) simp
  have "utf8_decode_from None (utf8_encode_cp c @ bs)
      = utf8_decode_from (Some (h, 3, if h = 0 then 0x90 else 0x80, if h = 4 then 0x8F else 0xBF))
          (of_nat (0x80 + m1) # of_nat (0x80 + m2) # of_nat (0x80 + l) # bs)"
    by (simp only: enc append_Cons append_Nil utf8_decode_from.simps utf8_lead_4 [OF h5]
        sum.case)
  also have "\<dots> = utf8_decode_from (Some (h * 64 + m1, 2, 0x80, 0xBF))
      (of_nat (0x80 + m2) # of_nat (0x80 + l) # bs)"
    using m1 lo hi by (subst utf8_continue) simp_all
  also have "\<dots> = utf8_decode_from (Some ((h * 64 + m1) * 64 + m2, 1, 0x80, 0xBF))
      (of_nat (0x80 + l) # bs)"
    using m2 by (subst utf8_continue) simp_all
  also have "\<dots> = (((h * 64 + m1) * 64 + m2) * 64 + l) # utf8_decode_from None bs"
    using l by (subst utf8_continue) simp_all
  finally show ?thesis by (simp only: c d e)
qed

lemma utf8_decode_cp:
  assumes "scalar_value c"
  shows "utf8_decode_from None (utf8_encode_cp c @ bs) = c # utf8_decode_from None bs"
proof -
  consider "c < 0x80" | "0x80 \<le> c" "c < 0x800" | "0x800 \<le> c" "c < 0x10000"
    | "0x10000 \<le> c" by linarith
  then show ?thesis
  proof cases
    case 1 then show ?thesis by (rule utf8_decode_cp_1)
  next
    case 2 then show ?thesis by (rule utf8_decode_cp_2)
  next
    case 3 then show ?thesis using assms by (intro utf8_decode_cp_3) (simp_all add: scalar_value_def)
  next
    case 4 then show ?thesis using assms by (intro utf8_decode_cp_4) (simp_all add: scalar_value_def)
  qed
qed

lemma utf8_decode_encode_scalars:
  "list_all scalar_value cs \<Longrightarrow> utf8_decode_from None (concat (map utf8_encode_cp cs)) = cs"
  by (induction cs) (simp_all add: utf8_decode_cp)

lemma unat_jschar_less: "unat (u :: jschar) < 0x10000"
  using unsigned_less [of u] by simp

lemma scalar_of_unit:
  assumes "\<not> is_high_surrogate u" "\<not> is_low_surrogate u"
  shows "scalar_value (unat u)" and "utf16_encode_cp (unat u) = [u]"
proof -
  have lt: "unat u < 0x10000" by (rule unat_jschar_less)
  then show "scalar_value (unat u)"
    using assms unfolding scalar_value_def is_high_surrogate_def is_low_surrogate_def
    by linarith
  show "utf16_encode_cp (unat u) = [u]"
    using lt by (simp only: utf16_encode_cp_def if_True of_nat_unat ucast_id)
qed

lemma scalar_of_pair:
  assumes "is_high_surrogate u" "is_low_surrogate v"
  defines "c \<equiv> 0x10000 + (unat u - 0xD800) * 0x400 + (unat v - 0xDC00)"
  shows "scalar_value c" and "utf16_encode_cp c = [u, v]" and "0x10000 \<le> c"
proof -
  define a b where "a = unat u - 0xD800" and "b = unat v - 0xDC00"
  have a: "a < 0x400" "0xD800 + a = unat u" and b: "b < 0x400" "0xDC00 + b = unat v"
    using assms(1,2) unfolding is_high_surrogate_def is_low_surrogate_def a_def b_def
    by linarith+
  have c: "c = 0x10000 + (a * 0x400 + b)" by (simp add: c_def a_def b_def)
  show ge: "0x10000 \<le> c" by (simp add: c)
  show "scalar_value c"
    unfolding scalar_value_def c using a(1) b(1) by linarith
  have sub: "c - 0x10000 = a * 0x400 + b" by (simp add: c)
  have dv: "(a * 0x400 + b) div 0x400 = a" and md: "(a * 0x400 + b) mod 0x400 = b"
    using b(1) by simp_all
  have "\<not> c < 0x10000" using ge by linarith
  then show "utf16_encode_cp c = [u, v]"
    by (simp only: utf16_encode_cp_def if_False sub dv md a(2) b(2) of_nat_unat ucast_id)
qed

lemma scalars_well_formed:
  "isWellFormed s \<Longrightarrow>
     list_all scalar_value (scalars s) \<and> concat (map utf16_encode_cp (scalars s)) = s"
proof (induction s rule: scalars.induct)
  case 1
  show ?case by simp
next
  case (2 u)
  then show ?case by (simp add: scalar_of_unit)
next
  case (3 u v r)
  show ?case
  proof (cases "is_high_surrogate u \<and> is_low_surrogate v")
    case True
    with 3 show ?thesis by (simp add: scalar_of_pair)
  next
    case False
    with 3 show ?thesis by (simp add: scalar_of_unit)
  qed
qed

lemma utf8_toString_encode: "isWellFormed s \<Longrightarrow> utf8_toString (utf8_encode s) = s"
  by (simp add: utf8_toString_def utf8_encode_def utf8_decode_encode_scalars scalars_well_formed)

lemma utf8_encode_eq_Nil: "utf8_encode s = [] \<longleftrightarrow> s = []"
proof -
  have cp: "utf8_encode_cp c \<noteq> []" for c
    by (simp add: utf8_encode_cp_def)
  have "scalars s = [] \<longleftrightarrow> s = []"
    by (cases s rule: scalars.cases) simp_all
  then show ?thesis
    by (simp add: utf8_encode_def cp)
qed

lemma utf8_encode_cp_bom: "utf8_encode_cp 0xFEFF = [0xEF, 0xBB, 0xBF]"
  by (simp add: utf8_encode_cp_def)

lemma scalar_value_bom: "scalar_value 0xFEFF"
  by (simp add: scalar_value_def)

lemma first_scalar_bom:
  assumes "isWellFormed s" "scalars s = 0xFEFF # cs"
  shows "\<exists>r. s = 0xFEFF # r"
proof (cases s rule: scalars.cases)
  case 1
  with assms show ?thesis by simp
next
  case (2 u)
  with assms have "unat u = 0xFEFF" by simp
  then have "u = 0xFEFF" by (simp add: word_unat_eq_iff)
  with 2 show ?thesis by simp
next
  case (3 u v r)
  show ?thesis
  proof (cases "is_high_surrogate u \<and> is_low_surrogate v")
    case True
    then have "0x10000 \<le> 0x10000 + (unat u - 0xD800) * 0x400 + (unat v - 0xDC00)"
      by simp
    with True 3 assms show ?thesis by simp
  next
    case False
    with 3 assms have "unat u = 0xFEFF" by simp
    then have "u = 0xFEFF" by (simp add: word_unat_eq_iff)
    with 3 show ?thesis by simp
  qed
qed

lemma no_bom_bytes:
  assumes "isWellFormed s" "\<not> (\<exists>r. s = 0xFEFF # r)"
  shows "take 3 (utf8_encode s) \<noteq> [0xEF, 0xBB, 0xBF]"
proof
  assume t: "take 3 (utf8_encode s) = [0xEF, 0xBB, 0xBF]"
  have "utf8_encode s = take 3 (utf8_encode s) @ drop 3 (utf8_encode s)"
    by (simp only: append_take_drop_id)
  then have e: "utf8_encode s = utf8_encode_cp 0xFEFF @ drop 3 (utf8_encode s)"
    by (simp only: t utf8_encode_cp_bom)
  have "scalars s = utf8_decode_from None (utf8_encode s)"
    using assms(1) by (simp add: utf8_encode_def utf8_decode_encode_scalars scalars_well_formed)
  also have "\<dots> = 0xFEFF # utf8_decode_from None (drop 3 (utf8_encode s))"
    by (subst e) (simp only: utf8_decode_cp [OF scalar_value_bom])
  finally show False using first_scalar_bom [OF assms(1)] assms(2) by blast
qed

lemma TextDecoder_decode_encode:
  assumes "isWellFormed s" "\<not> (\<exists>r. s = 0xFEFF # r)"
  shows "TextDecoder_decode (utf8_encode s) = s"
  using no_bom_bytes [OF assms] assms(1)
  by (simp only: TextDecoder_decode_def if_False utf8_toString_encode)

lemma length_randomBytes: "length (fst (randomBytes n g)) = n"
  by (simp add: randomBytes_def)

section \<open>Encryption and decryption\<close>

lemma encrypt_string:
  assumes "P \<noteq> []" "length K = 32"
  shows "encrypt (Str P) K g =
    (Inr \<lparr>encrypted = base64_encode (xor_bytes (utf8_encode P) K (map g [0..<12])),
           iv = base64_encode (map g [0..<12]),
           authTag = base64_encode (map (\<lambda>i. g (i + 12)) [0..<16])\<rparr>,
     \<lambda>i. g (i + 28))"
  using assms
  by (simp add: encrypt_def KEY_LENGTH_def IV_LENGTH_def TAG_LENGTH_def randomBytes_def
      add.assoc del: upt_Suc map_upt_Suc)

lemma decrypt_envelope:
  assumes "body \<noteq> []" "length n = 12" "length t = 16" "length K = 32"
  shows "decrypt \<lparr>encrypted = base64_encode body, iv = base64_encode n,
                  authTag = base64_encode t\<rparr> K
         = Inr (TextDecoder_decode (xor_bytes body K n))"
proof -
  have "n \<noteq> []" "t \<noteq> []" using assms(2,3) by auto
  then show ?thesis
    using assms
    by (simp add: decrypt_def base64_encode_eq_Nil base64_decode_encode KEY_LENGTH_def
        IV_LENGTH_def TAG_LENGTH_def)
qed

text \<open>
  C9. For a non-empty string \<open>P\<close> and a key of 32 bytes, \<open>encrypt\<close> succeeds, and the
  \<open>encrypted\<close> field of its envelope decodes from base64 to exactly as many bytes as the
  UTF-8 encoding of \<open>P\<close> has: the ciphertext shows the byte length of the plaintext.
\<close>

theorem ciphertext_length:
  assumes "P \<noteq> []" "length K = 32"
  shows "\<exists>e g'. encrypt (Str P) K g = (Inr e, g')
           \<and> length (base64_decode (encrypted e)) = length (utf8_encode P)"
  by (simp add: encrypt_string [OF assms] base64_decode_encode length_xor_bytes)

text \<open>
  C3, as amended. For a non-empty string \<open>P\<close> that is well-formed UTF-16 (no unpaired
  surrogate) and does not begin with U+FEFF, and a key \<open>K\<close> of 32 bytes, whatever the
  random bytes drawn, \<open>encrypt\<close> succeeds and \<open>decrypt\<close> of its envelope under \<open>K\<close>
  returns exactly \<open>P\<close>; the length of \<open>P\<close> and the code points in it are not restricted
  otherwise.
\<close>

theorem encrypt_decrypt_roundtrip:
  assumes "P \<noteq> []" "isWellFormed P" "hd P \<noteq> 0xFEFF" "length K = 32"
  shows "\<exists>e g'. encrypt (Str P) K g = (Inr e, g') \<and> decrypt e K = Inr P"
proof -
  have nobom: "\<not> (\<exists>r. P = 0xFEFF # r)" using assms(3) by auto
  have body: "xor_bytes (utf8_encode P) K (map g [0..<12]) \<noteq> []"
    using assms(1) length_xor_bytes [of "utf8_encode P" K "map g [0..<12]"]
      utf8_encode_eq_Nil [of P] by auto
  have "decrypt \<lparr>encrypted = base64_encode (xor_bytes (utf8_encode P) K (map g [0..<12])),
           iv = base64_encode (map g [0..<12]),
           authTag = base64_encode (map (\<lambda>i. g (i + 12)) [0..<16])\<rparr> K = Inr P"
    using assms(4)
    by (subst decrypt_envelope [OF body])
      (simp_all add: xor_bytes_involution TextDecoder_decode_encode [OF assms(2) nobom])
  then show ?thesis
    by (simp only: encrypt_string [OF assms(1,4)]) blast
qed

lemma xor_cancel:
  fixes a b x y :: byte
  assumes "a XOR b XOR x = a XOR b XOR y"
  shows "x = y"
proof -
  have "a XOR (a XOR b XOR x) = a XOR (a XOR b XOR y)" by (simp only: assms)
  then have "b XOR x = b XOR y" by (simp only: bit.xor_left_self)
  then have "b XOR (b XOR x) = b XOR (b XOR y)" by (simp only:)
  then show ?thesis by (simp only: bit.xor_left_self)
qed

lemma xor_bytes_eq_iff:
  assumes "length n1 = 12" "length n2 = 12"
  shows "xor_bytes d K n1 = xor_bytes d K n2
     \<longleftrightarrow> (\<forall>j < min (length d) 12. n1 ! j = n2 ! j)"
proof
  assume eq: "xor_bytes d K n1 = xor_bytes d K n2"
  show "\<forall>j < min (length d) 12. n1 ! j = n2 ! j"
  proof (intro allI impI)
    fix j assume j: "j < min (length d) 12"
    then have "xor_bytes d K n1 ! j = xor_bytes d K n2 ! j" using eq by simp
    with j assms have "d ! j XOR K ! (j mod length K) XOR n1 ! j
        = d ! j XOR K ! (j mod length K) XOR n2 ! j"
      by (simp add: xor_bytes_def)
    then show "n1 ! j = n2 ! j" by (rule xor_cancel)
  qed
next
  assume agree: "\<forall>j < min (length d) 12. n1 ! j = n2 ! j"
  show "xor_bytes d K n1 = xor_bytes d K n2"
  proof (rule nth_equalityI)
    show "length (xor_bytes d K n1) = length (xor_bytes d K n2)"
      by (simp add: length_xor_bytes)
  next
    fix i assume "i < length (xor_bytes d K n1)"
    then have i: "i < length d" by (simp add: length_xor_bytes)
    have "i mod 12 \<le> i" by simp
    with i have "i mod 12 < min (length d) 12" by simp
    with agree have "n1 ! (i mod 12) = n2 ! (i mod 12)" by blast
    with i assms show "xor_bytes d K n1 ! i = xor_bytes d K n2 ! i"
      by (simp add: xor_bytes_def)
  qed
qed

lemma map_shift_upt: "map (\<lambda>i. g (i + k)) [0..<n] = map g [k..<k + n]"
  by (induction n) (simp_all add: add.commute)

text \<open>
  C8, as amended. For the same non-empty \<open>P\<close> and key of 32 bytes, two calls of \<open>encrypt\<close>
  in a row both succeed; their \<open>iv\<close> fields are equal exactly when the two nonces drawn
  (bytes 0 to 11 and 28 to 39 of the tape) are equal, their \<open>authTag\<close> fields exactly when
  the two tags drawn (bytes 12 to 27 and 40 to 55) are equal, and their \<open>encrypted\<close> fields
  exactly when the two nonces agree on their first \<open>min n 12\<close> bytes, \<open>n\<close> the number of
  bytes of \<open>P\<close> in UTF-8.
\<close>

theorem two_encryptions:
  assumes "P \<noteq> []" "length K = 32"
  shows "\<exists>e1 e2 g2.
      encrypt (Str P) K g = (Inr e1, \<lambda>i. g (i + 28))
    \<and> encrypt (Str P) K (\<lambda>i. g (i + 28)) = (Inr e2, g2)
    \<and> (iv e1 = iv e2 \<longleftrightarrow> map g [0..<12] = map g [28..<40])
    \<and> (authTag e1 = authTag e2 \<longleftrightarrow> map g [12..<28] = map g [40..<56])
    \<and> (encrypted e1 = encrypted e2
         \<longleftrightarrow> (\<forall>j < min (length (utf8_encode P)) 12. g j = g (28 + j)))"
proof -
  have n2: "map (\<lambda>i. g (i + 28)) [0..<12] = map g [28..<40]"
    using map_shift_upt [of g 28 12] by (simp only: numeral_plus_numeral) simp
  have t1: "map (\<lambda>i. g (i + 12)) [0..<16] = map g [12..<28]"
    using map_shift_upt [of g 12 16] by (simp only: numeral_plus_numeral) simp
  have t2: "map (\<lambda>i. g (i + 12 + 28)) [0..<16] = map g [40..<56]"
    using map_shift_upt [of g 40 16] by (simp only: add.assoc numeral_plus_numeral) simp
  have xe: "xor_bytes (utf8_encode P) K (map g [0..<12])
        = xor_bytes (utf8_encode P) K (map g [28..<40])
      \<longleftrightarrow> (\<forall>j < min (length (utf8_encode P)) 12. g j = g (28 + j))"
    by (subst xor_bytes_eq_iff) (simp_all add: nth_map_upt del: upt_rec_numeral)
  show ?thesis
    by (simp only: encrypt_string [OF assms] n2 t1 t2 prod.inject sum.inject simp_thms
        ex_simps EncryptionResult.simps base64_encode_inject xe)
qed

lemma zero_tape: "map (\<lambda>i. 0::byte) [0..<12] = [0,0,0,0,0,0,0,0,0,0,0,0]"
  "map (\<lambda>i. 0::byte) [0..<16] = [0,0,0,0,0,0,0,0,0,0,0,0,0,0,0,0]"
  by (simp_all add: upt_rec)

lemma b64_zero12: "base64_encode [0,0,0,0,0,0,0,0,0,0,0,0] = js ''AAAAAAAAAAAAAAAA''"
  by (simp add: base64_char_def base64_alphabet_def js_def)

lemma b64_zero16: "base64_encode [0,0,0,0,0,0,0,0,0,0,0,0,0,0,0,0] = js ''AAAAAAAAAAAAAAAAAAAAAA==''"
  by (simp add: base64_char_def base64_alphabet_def js_def)

lemma b64d_zero12: "base64_decode (js ''AAAAAAAAAAAAAAAA'') = [0,0,0,0,0,0,0,0,0,0,0,0]"
  by (simp add: base64_decode_def js_def unbase64_def)

lemma b64d_zero16: "base64_decode (js ''AAAAAAAAAAAAAAAAAAAAAA=='') = [0,0,0,0,0,0,0,0,0,0,0,0,0,0,0,0]"
  by (simp add: base64_decode_def js_def unbase64_def)

lemma enc_surrogate:
  "encrypt (Str [0xD800]) (replicate 32 0) (\<lambda>i. 0)
     = (Inr \<lparr>encrypted = js ''77+9'', iv = js ''AAAAAAAAAAAAAAAA'',
             authTag = js ''AAAAAAAAAAAAAAAAAAAAAA==''\<rparr>, \<lambda>i. 0)"
proof -
  have u: "utf8_encode [0xD800] = [0xEF, 0xBF, 0xBD]"
    by (simp add: utf8_encode_def is_high_surrogate_def is_low_surrogate_def utf8_encode_cp_def)
  have x: "xor_bytes [0xEF, 0xBF, 0xBD] (replicate 32 0) [0,0,0,0,0,0,0,0,0,0,0,0]
      = [0xEF, 0xBF, 0xBD]"
    by (simp add: xor_bytes_def upt_rec)
  have b: "base64_encode [0xEF, 0xBF, 0xBD] = js ''77+9''"
    by (simp add: base64_char_def base64_alphabet_def js_def)
  have "encrypt (Str [0xD800]) (replicate 32 0) (\<lambda>i. 0)
     = (Inr \<lparr>encrypted = base64_encode (xor_bytes (utf8_encode [0xD800]) (replicate 32 0)
                   (map (\<lambda>i. 0) [0..<12])),
             iv = base64_encode (map (\<lambda>i. 0) [0..<12]),
             authTag = base64_encode (map (\<lambda>i. 0) [0..<16])\<rparr>, \<lambda>i. 0)"
    by (subst encrypt_string) simp_all
  then show ?thesis
    by (simp only: zero_tape u x b b64_zero12 b64_zero16)
qed

lemma dec_surrogate:
  "decrypt \<lparr>encrypted = js ''77+9'', iv = js ''AAAAAAAAAAAAAAAA'',
             authTag = js ''AAAAAAAAAAAAAAAAAAAAAA==''\<rparr> (replicate 32 0) = Inr [0xFFFD]"
proof -
  have d: "base64_decode (js ''77+9'') = [0xEF, 0xBF, 0xBD]"
    by (simp add: base64_decode_def js_def unbase64_def)
  have x: "xor_bytes [0xEF, 0xBF, 0xBD] (replicate 32 0) [0,0,0,0,0,0,0,0,0,0,0,0]
      = [0xEF, 0xBF, 0xBD]"
    by (simp add: xor_bytes_def upt_rec)
  have t: "TextDecoder_decode [0xEF, 0xBF, 0xBD] = [0xFFFD]"
    by (simp add: TextDecoder_decode_def utf8_toString_def utf8_lead_def utf16_encode_cp_def)
  have ne: "js ''77+9'' \<noteq> []" "js ''AAAAAAAAAAAAAAAA'' \<noteq> []" "js ''AAAAAAAAAAAAAAAAAAAAAA=='' \<noteq> []"
    by (simp_all add: js_def)
  show ?thesis
    unfolding decrypt_def Let_def
    by (simp only: EncryptionResult.simps ne d b64d_zero12 b64d_zero16 x t)
      (simp add: KEY_LENGTH_def IV_LENGTH_def TAG_LENGTH_def)
qed

lemma b64_a: "base64_encode [0x61] = js ''YQ==''"
  by (simp add: base64_char_def base64_alphabet_def js_def)

lemma utf8_a: "utf8_encode (js ''a'') = [0x61]"
  by (simp add: utf8_encode_def js_def is_high_surrogate_def is_low_surrogate_def
      utf8_encode_cp_def)

lemma text_a: "TextDecoder_decode [0x61] = js ''a''" "TextDecoder_decode [0x60] = js ''`''"
  "TextDecoder_decode [0x62] = js ''b''"
  by (simp_all add: TextDecoder_decode_def utf8_toString_def utf8_lead_def utf16_encode_cp_def
      js_def)

lemma js_nonempty: "js (c # cs) \<noteq> []"
  by (simp add: js_def)

lemma decrypt_fields:
  assumes "body \<noteq> []" "nonce \<noteq> []" "tag \<noteq> []" "length K = 32"
    "length (base64_decode nonce) = 12" "length (base64_decode tag) = 16"
  shows "decrypt \<lparr>encrypted = body, iv = nonce, authTag = tag\<rparr> K
    = Inr (TextDecoder_decode (xor_bytes (base64_decode body) K (base64_decode nonce)))"
  using assms
  by (simp add: decrypt_def KEY_LENGTH_def IV_LENGTH_def TAG_LENGTH_def)

lemma b64d_a: "base64_decode (js ''YQ=='') = [0x61]" "base64_decode (js ''Yg=='') = [0x62]"
  by (simp_all add: base64_decode_def js_def unbase64_def)

lemma b64d_ff16: "base64_decode (js ''/////////////////////w=='')
    = [0xFF,0xFF,0xFF,0xFF,0xFF,0xFF,0xFF,0xFF,0xFF,0xFF,0xFF,0xFF,0xFF,0xFF,0xFF,0xFF]"
  by (simp add: base64_decode_def js_def unbase64_def)

lemma xor_one_byte:
  "xor_bytes [b] (replicate 32 0) [0,0,0,0,0,0,0,0,0,0,0,0] = [b]"
  "xor_bytes [b] (replicate 31 0 @ [1]) [0,0,0,0,0,0,0,0,0,0,0,0] = [b]"
  "xor_bytes [0x61] (1 # replicate 31 0) [0,0,0,0,0,0,0,0,0,0,0,0] = [0x60]"
  by (simp_all add: xor_bytes_def nth_append)

lemma enc_a:
  "encrypt (Str (js ''a'')) (replicate 32 0) (\<lambda>i. 0)
     = (Inr \<lparr>encrypted = js ''YQ=='', iv = js ''AAAAAAAAAAAAAAAA'',
             authTag = js ''AAAAAAAAAAAAAAAAAAAAAA==''\<rparr>, \<lambda>i. 0)"
proof -
  have "encrypt (Str (js ''a'')) (replicate 32 0) (\<lambda>i. 0)
     = (Inr \<lparr>encrypted = base64_encode (xor_bytes (utf8_encode (js ''a'')) (replicate 32 0)
                   (map (\<lambda>i. 0) [0..<12])),
             iv = base64_encode (map (\<lambda>i. 0) [0..<12]),
             authTag = base64_encode (map (\<lambda>i. 0) [0..<16])\<rparr>, \<lambda>i. 0)"
    by (subst encrypt_string) (simp_all add: js_nonempty)
  then show ?thesis
    by (simp only: zero_tape utf8_a xor_one_byte b64_a b64_zero12 b64_zero16)
qed

text \<open>
  C2 at a failing input. The envelope of \<open>"a"\<close> under the key of 32 zero bytes (all random
  bytes zero) is decrypted without an error under a key that differs in its last byte (the
  result is \<open>"a"\<close> again), under a key that differs in its first byte (the result is
  another string), after its ciphertext was replaced, and after its tag was replaced by
  sixteen bytes \<open>0xFF\<close>: \<open>decrypt\<close> never checks the tag against anything.
\<close>

theorem decrypt_accepts_wrong_key_and_tampering:
  "encrypt (Str (js ''a'')) (replicate 32 0) (\<lambda>i. 0)
     = (Inr \<lparr>encrypted = js ''YQ=='', iv = js ''AAAAAAAAAAAAAAAA'',
             authTag = js ''AAAAAAAAAAAAAAAAAAAAAA==''\<rparr>, \<lambda>i. 0)
   \<and> decrypt \<lparr>encrypted = js ''YQ=='', iv = js ''AAAAAAAAAAAAAAAA'',
               authTag = js ''AAAAAAAAAAAAAAAAAAAAAA==''\<rparr> (replicate 31 0 @ [1])
       = Inr (js ''a'')
   \<and> decrypt \<lparr>encrypted = js ''YQ=='', iv = js ''AAAAAAAAAAAAAAAA'',
               authTag = js ''AAAAAAAAAAAAAAAAAAAAAA==''\<rparr> (1 # replicate 31 0)
       = Inr (js ''`'')
   \<and> decrypt \<lparr>encrypted = js ''Yg=='', iv = js ''AAAAAAAAAAAAAAAA'',
               authTag = js ''AAAAAAAAAAAAAAAAAAAAAA==''\<rparr> (replicate 32 0)
       = Inr (js ''b'')
   \<and> decrypt \<lparr>encrypted = js ''YQ=='', iv = js ''AAAAAAAAAAAAAAAA'',
               authTag = js ''/////////////////////w==''\<rparr> (replicate 32 0)
       = Inr (js ''a'')"
proof -
  have k: "length (replicate 31 (0::byte) @ [1]) = 32" "length (1 # replicate 31 (0::byte)) = 32"
    "length (replicate 32 (0::byte)) = 32"
    by simp_all
  have n: "length (base64_decode (js ''AAAAAAAAAAAAAAAA'')) = 12"
    "length (base64_decode (js ''AAAAAAAAAAAAAAAAAAAAAA=='')) = 16"
    "length (base64_decode (js ''/////////////////////w=='')) = 16"
    by (simp_all only: b64d_zero12 b64d_zero16 b64d_ff16) simp_all
  show ?thesis
    by (simp only: enc_a decrypt_fields [OF js_nonempty js_nonempty js_nonempty k(1) n(1) n(2)]
        decrypt_fields [OF js_nonempty js_nonempty js_nonempty k(2) n(1) n(2)]
        decrypt_fields [OF js_nonempty js_nonempty js_nonempty k(3) n(1) n(2)]
        decrypt_fields [OF js_nonempty js_nonempty js_nonempty k(3) n(1) n(3)]
        b64d_a b64d_zero12 xor_one_byte text_a simp_thms)
qed

theorem ciphertext_length_witness:
  "[0xE9] \<noteq> ([] :: jsstring) \<and> length (replicate 32 (0::byte)) = 32
   \<and> (\<exists>e g'. encrypt (Str [0xE9]) (replicate 32 0) (\<lambda>i. 0) = (Inr e, g')
          \<and> length (base64_decode (encrypted e)) = 2)"
proof -
  have u: "length (utf8_encode [0xE9]) = 2"
    by (simp add: utf8_encode_def is_high_surrogate_def is_low_surrogate_def utf8_encode_cp_def)
  have h: "[0xE9] \<noteq> ([] :: jsstring)" "length (replicate 32 (0::byte)) = 32" by simp_all
  show ?thesis
    using ciphertext_length [OF h, of "\<lambda>i. 0"] h by (simp only: u simp_thms)
qed

theorem roundtrip_lone_surrogate:
  "encrypt (Str [0xD800]) (replicate 32 0) (\<lambda>i. 0)
     = (Inr \<lparr>encrypted = js ''77+9'', iv = js ''AAAAAAAAAAAAAAAA'',
             authTag = js ''AAAAAAAAAAAAAAAAAAAAAA==''\<rparr>, \<lambda>i. 0)
   \<and> decrypt \<lparr>encrypted = js ''77+9'', iv = js ''AAAAAAAAAAAAAAAA'',
               authTag = js ''AAAAAAAAAAAAAAAAAAAAAA==''\<rparr> (replicate 32 0) = Inr [0xFFFD]"
  by (simp only: enc_surrogate dec_surrogate simp_thms)

theorem encrypt_decrypt_roundtrip_witness:
  "[0x4F60, 0x597D, 0xD83C, 0xDF1F, 0xE9] \<noteq> ([] :: jsstring)
   \<and> isWellFormed [0x4F60, 0x597D, 0xD83C, 0xDF1F, 0xE9]
   \<and> hd [0x4F60, 0x597D, 0xD83C, 0xDF1F, 0xE9] \<noteq> (0xFEFF :: jschar)
   \<and> length (map of_nat [0..<32] :: byte list) = 32
   \<and> (\<exists>e g'. encrypt (Str [0x4F60, 0x597D, 0xD83C, 0xDF1F, 0xE9]) (map of_nat [0..<32]) of_nat
                = (Inr e, g')
          \<and> decrypt e (map of_nat [0..<32]) = Inr [0x4F60, 0x597D, 0xD83C, 0xDF1F, 0xE9])"
proof -
  have h: "[0x4F60, 0x597D, 0xD83C, 0xDF1F, 0xE9] \<noteq> ([] :: jsstring)"
    "isWellFormed [0x4F60, 0x597D, 0xD83C, 0xDF1F, 0xE9]"
    "hd [0x4F60, 0x597D, 0xD83C, 0xDF1F, 0xE9] \<noteq> (0xFEFF :: jschar)"
    "length (map of_nat [0..<32] :: byte list) = 32"
    by (simp_all add: is_high_surrogate_def is_low_surrogate_def del: upt_rec_numeral)
  show ?thesis
    using encrypt_decrypt_roundtrip [OF h, of of_nat] h by (simp only: simp_thms)
qed

text \<open>A leading U+FEFF is lost as well: the decoder takes it for a byte order mark.\<close>

lemma roundtrip_leading_bom:
  "\<exists>e g'. encrypt (Str [0xFEFF, 0x41]) (replicate 32 0) (\<lambda>i. 0) = (Inr e, g')
      \<and> decrypt e (replicate 32 0) = Inr [0x41]"
proof -
  have u: "utf8_encode [0xFEFF, 0x41] = [0xEF, 0xBB, 0xBF, 0x41]"
    by (simp add: utf8_encode_def is_high_surrogate_def is_low_surrogate_def utf8_encode_cp_def)
  have t: "TextDecoder_decode [0xEF, 0xBB, 0xBF, 0x41] = [0x41]"
    by (simp add: TextDecoder_decode_def utf8_toString_def utf8_lead_def utf16_encode_cp_def)
  have "decrypt \<lparr>encrypted = base64_encode (xor_bytes (utf8_encode [0xFEFF, 0x41])
                    (replicate 32 0) (map (\<lambda>i. 0) [0..<12])),
           iv = base64_encode (map (\<lambda>i. 0) [0..<12]),
           authTag = base64_encode (map (\<lambda>i. 0) [0..<16])\<rparr> (replicate 32 0) = Inr [0x41]"
    by (subst decrypt_envelope)
      (simp_all add: xor_bytes_involution u t xor_bytes_def del: upt_rec_numeral)
  then show ?thesis
    by (subst encrypt_string) simp_all
qed

theorem two_encryptions_witness:
  "js ''a'' \<noteq> [] \<and> length (replicate 32 (0::byte)) = 32
   \<and> (\<exists>e1 e2 g2.
      encrypt (Str (js ''a'')) (replicate 32 0) of_nat = (Inr e1, \<lambda>i. of_nat (i + 28))
    \<and> encrypt (Str (js ''a'')) (replicate 32 0) (\<lambda>i. of_nat (i + 28)) = (Inr e2, g2)
    \<and> (iv e1 = iv e2 \<longleftrightarrow> map of_nat [0..<12] = (map of_nat [28..<40] :: byte list))
    \<and> (authTag e1 = authTag e2
         \<longleftrightarrow> map of_nat [12..<28] = (map of_nat [40..<56] :: byte list))
    \<and> (encrypted e1 = encrypted e2
         \<longleftrightarrow> (\<forall>j < min (length (utf8_encode (js ''a''))) 12.
                (of_nat j :: byte) = of_nat (28 + j))))"
proof -
  have h: "js ''a'' \<noteq> []" "length (replicate 32 (0::byte)) = 32"
    by (simp_all add: js_nonempty)
  show ?thesis
    using two_encryptions [OF h, of of_nat] h by (simp only: simp_thms)
qed

text \<open>Two calls in a row on a tape whose second nonce differs from the first in its second
  byte only, and whose tags differ: the one-byte plaintext meets the first nonce byte
  only, and the two ciphertexts are equal.\<close>

theorem equal_ciphertexts:
  "fst (encrypt (Str (js ''a'')) (replicate 32 0) (\<lambda>i. if i = 29 \<or> i = 40 then 1 else 0))
     = Inr \<lparr>encrypted = js ''YQ=='', iv = js ''AAAAAAAAAAAAAAAA'',
            authTag = js ''AAAAAAAAAAAAAAAAAAAAAA==''\<rparr>
   \<and> fst (encrypt (Str (js ''a'')) (replicate 32 0)
          (snd (encrypt (Str (js ''a'')) (replicate 32 0)
             (\<lambda>i. if i = 29 \<or> i = 40 then 1 else 0))))
     = Inr \<lparr>encrypted = js ''YQ=='', iv = js ''AAEAAAAAAAAAAAAA'',
            authTag = js ''AQAAAAAAAAAAAAAAAAAAAA==''\<rparr>"
proof -
  let ?g = "\<lambda>i::nat. if i = 29 \<or> i = 40 then 1 else (0::byte)"
  have h: "js ''a'' \<noteq> []" "length (replicate 32 (0::byte)) = 32"
    by (simp_all add: js_nonempty)
  have d1: "map ?g [0..<12] = [0,0,0,0,0,0,0,0,0,0,0,0]"
    "map (\<lambda>i. ?g (i + 12)) [0..<16] = [0,0,0,0,0,0,0,0,0,0,0,0,0,0,0,0]"
    by (simp_all add: upt_rec)
  have d2: "map (\<lambda>i. ?g (i + 28)) [0..<12] = [0,1,0,0,0,0,0,0,0,0,0,0]"
    "map (\<lambda>i. ?g (i + 12 + 28)) [0..<16] = [1,0,0,0,0,0,0,0,0,0,0,0,0,0,0,0]"
    by (simp_all add: upt_rec)
  have x: "xor_bytes [0x61] (replicate 32 0) [0,1,0,0,0,0,0,0,0,0,0,0] = [0x61]"
    by (simp add: xor_bytes_def)
  have b: "base64_encode [0,1,0,0,0,0,0,0,0,0,0,0] = js ''AAEAAAAAAAAAAAAA''"
    "base64_encode [1,0,0,0,0,0,0,0,0,0,0,0,0,0,0,0] = js ''AQAAAAAAAAAAAAAAAAAAAA==''"
    by (simp_all add: base64_char_def base64_alphabet_def js_def)
  show ?thesis
    by (simp only: encrypt_string [OF h] fst_conv snd_conv d1 d2 utf8_a xor_one_byte x
        b64_a b64_zero12 b64_zero16 b simp_thms)
qed

text \<open>Decryption with any key of 32 bytes, of any ciphertext, under any tag of 16 bytes,
  returns a string.\<close>

lemma decrypt_never_verifies:
  assumes "body \<noteq> []" "length n = 12" "length t = 16" "length K = 32"
  shows "\<exists>s. decrypt \<lparr>encrypted = base64_encode body, iv = base64_encode n,
                       authTag = base64_encode t\<rparr> K = Inr s"
  by (simp add: decrypt_envelope [OF assms])

section \<open>Deterministic digests\<close>

text \<open>Two test vectors of the standard: the empty message and \<open>"abc"\<close>.\<close>

lemma sha256_empty:
  "sha256 [] =
     [0xE3, 0xB0, 0xC4, 0x42, 0x98, 0xFC, 0x1C, 0x14, 0x9A, 0xFB, 0xF4, 0xC8, 0x99, 0x6F, 0xB9, 0x24,
      0x27, 0xAE, 0x41, 0xE4, 0x64, 0x9B, 0x93, 0x4C, 0xA4, 0x95, 0x99, 0x1B, 0x78, 0x52, 0xB8, 0x55]"
  by code_simp

lemma sha256_abc:
  "sha256 [0x61, 0x62, 0x63] =
     [0xBA, 0x78, 0x16, 0xBF, 0x8F, 0x01, 0xCF, 0xEA, 0x41, 0x41, 0x40, 0xDE, 0x5D, 0xAE, 0x22, 0x23,
      0xB0, 0x03, 0x61, 0xA3, 0x96, 0x17, 0x7A, 0x9C, 0xB4, 0x10, 0xFF, 0x61, 0xF2, 0x00, 0x15, 0xAD]"
  by code_simp

lemma sha256_empty_hex:
  "hex_encode (sha256 [])
     = js ''e3b0c44298fc1c149afbf4c8996fb92427ae41e4649b934ca495991b7852b855''"
  by (simp only: sha256_empty) (simp add: hex_encode_def hex_digit_def js_def)

text \<open>
  Looking a code point up in a table goes through the entries one by one; these two rules
  keep the simplifier from working on the table itself.
\<close>

lemma lowercase_in_cong: "c = c' \<Longrightarrow> lowercase_in t c = lowercase_in t c'" by simp
lemma in_ranges_cong: "c = c' \<Longrightarrow> in_ranges t c = in_ranges t c'" by simp

lemma white_space_codes:
  assumes "is_white_space u"
  shows "unat u \<in> set [0x09, 0x0A, 0x0B, 0x0C, 0x0D, 0x20, 0xA0, 0x1680, 0x2000, 0x2001, 0x2002,
    0x2003, 0x2004, 0x2005, 0x2006, 0x2007, 0x2008, 0x2009, 0x200A, 0x2028, 0x2029, 0x202F,
    0x205F, 0x3000, 0xFEFF]"
proof -
  have a: "n = 9 \<or> n = 10 \<or> n = 11 \<or> n = 12 \<or> n = 13" if "9 \<le> n" "n \<le> 13" for n :: nat
    using that by arith
  have b: "n = 0x2000 \<or> n = 0x2001 \<or> n = 0x2002 \<or> n = 0x2003 \<or> n = 0x2004 \<or> n = 0x2005
      \<or> n = 0x2006 \<or> n = 0x2007 \<or> n = 0x2008 \<or> n = 0x2009 \<or> n = 0x200A"
    if "0x2000 \<le> n" "n \<le> 0x200A" for n :: nat
    using that by arith
  from assms a [of "unat u"] b [of "unat u"] show ?thesis
    unfolding is_white_space_def Let_def by (simp only: list.set insert_iff empty_iff) blast
qed

lemma white_space_table:
  "\<forall>n \<in> set [0x09, 0x0A, 0x0B, 0x0C, 0x0D, 0x20, 0xA0, 0x1680, 0x2000, 0x2001, 0x2002,
    0x2003, 0x2004, 0x2005, 0x2006, 0x2007, 0x2008, 0x2009, 0x200A, 0x2028, 0x2029, 0x202F,
    0x205F, 0x3000, 0xFEFF]. simple_lowercase n = n \<and> \<not> cased n"
  unfolding simple_lowercase_def lowercase_table_def cased_def cased_table_def
  by (simp cong: lowercase_in_cong in_ranges_cong)

lemma white_space_lower:
  assumes "is_white_space u"
  shows "simple_lowercase (unat u) = unat u" "\<not> cased (unat u)"
  using white_space_codes [OF assms] white_space_table by blast+

lemma white_space_no_surrogate:
  "is_white_space u \<Longrightarrow> \<not> is_high_surrogate u \<and> \<not> is_low_surrogate u
     \<and> unat u \<noteq> 0x3A3 \<and> unat u \<noteq> 0x130"
  unfolding is_white_space_def is_high_surrogate_def is_low_surrogate_def Let_def by arith

lemma code_points_Cons:
  "\<not> is_high_surrogate u \<Longrightarrow> code_points (u # s) = unat u # code_points s"
  by (cases s) simp_all

lemma code_points_append:
  assumes "s = [] \<or> \<not> is_high_surrogate (last s) \<or> t = [] \<or> \<not> is_low_surrogate (hd t)"
  shows "code_points (s @ t) = code_points s @ code_points t"
  using assms
proof (induction s rule: code_points.induct)
  case 1
  show ?case by simp
next
  case (2 u)
  show ?case
  proof (cases t)
    case Nil
    then show ?thesis by simp
  next
    case (Cons v r)
    with 2 have n: "(is_high_surrogate u \<and> is_low_surrogate v) = False" by simp
    show ?thesis by (simp only: Cons append.simps code_points.simps n if_False)
  qed
next
  case (3 u v r)
  show ?case
  proof (cases "is_high_surrogate u \<and> is_low_surrogate v")
    case True
    have "r = [] \<or> \<not> is_high_surrogate (last r) \<or> t = [] \<or> \<not> is_low_surrogate (hd t)"
      using 3(3) by (cases r) auto
    from 3(1) [OF True this] have ih: "code_points (r @ t) = code_points r @ code_points t" .
    from True have c: "(is_high_surrogate u \<and> is_low_surrogate v) = True" by simp
    show ?thesis by (simp only: append.simps code_points.simps c if_True ih)
  next
    case False
    have "v # r = [] \<or> \<not> is_high_surrogate (last (v # r)) \<or> t = [] \<or> \<not> is_low_surrogate (hd t)"
      using 3(3) by auto
    from 3(2) [OF False this]
    have ih: "code_points ((v # r) @ t) = code_points (v # r) @ code_points t" .
    from False have c: "(is_high_surrogate u \<and> is_low_surrogate v) = False" by simp
    show ?thesis by (simp only: append.simps code_points.simps c if_False ih [simplified append.simps])
  qed
qed

lemma code_points_white_space:
  "list_all is_white_space w \<Longrightarrow> code_points w = map unat w"
  by (induction w) (simp_all add: code_points_Cons white_space_no_surrogate)

lemma code_points_surrounded:
  assumes "list_all is_white_space w1" "list_all is_white_space w2"
  shows "code_points (w1 @ s @ w2) = map unat w1 @ code_points s @ map unat w2"
proof -
  have a: "code_points (s @ w2) = code_points s @ code_points w2"
  proof (cases w2)
    case Nil
    then show ?thesis by simp
  next
    case (Cons v r)
    with assms(2) have "\<not> is_low_surrogate (hd w2)" by (simp add: white_space_no_surrogate)
    then show ?thesis by (intro code_points_append) simp
  qed
  have b: "code_points (w1 @ (s @ w2)) = code_points w1 @ code_points (s @ w2)"
  proof (cases "w1 = []")
    case True
    then show ?thesis by simp
  next
    case False
    with assms(1) have "is_white_space (last w1)" by (simp add: list_all_iff)
    then have "\<not> is_high_surrogate (last w1)" by (simp add: white_space_no_surrogate)
    then show ?thesis by (intro code_points_append) simp
  qed
  show ?thesis
    by (simp only: b a code_points_white_space [OF assms(1)] code_points_white_space [OF assms(2)])
qed

lemma followed_by_cased_uncased:
  "\<forall>c \<in> set ws. \<not> cased c \<Longrightarrow> \<not> followed_by_cased ws"
  by (induction ws) simp_all

lemma followed_by_cased_append:
  "\<forall>c \<in> set ws. \<not> cased c \<Longrightarrow> followed_by_cased (xs @ ws) = followed_by_cased xs"
  by (induction xs) (simp_all add: followed_by_cased_uncased)

lemma lowercase_mapping_context:
  assumes "\<forall>c \<in> set ws. \<not> cased c" "\<forall>c \<in> set ws'. \<not> cased c"
  shows "lowercase_mapping (preceding @ ws) c (following @ ws')
    = lowercase_mapping preceding c following"
  by (simp add: lowercase_mapping_def final_sigma_def followed_by_cased_append [OF assms(1)]
      followed_by_cased_append [OF assms(2)])

lemma lowercase_from_context:
  assumes "\<forall>c \<in> set ws. \<not> cased c"
  shows "lowercase_from (preceding @ ws) cs = lowercase_from preceding cs"
proof (induction cs arbitrary: preceding)
  case Nil
  show ?case by simp
next
  case (Cons c cs)
  have "lowercase_mapping (preceding @ ws) c (cs @ []) = lowercase_mapping preceding c cs"
    by (rule lowercase_mapping_context [OF assms]) simp
  moreover have "lowercase_from ((c # preceding) @ ws) cs = lowercase_from (c # preceding) cs"
    by (rule Cons.IH)
  ultimately show ?case by simp
qed

lemma lowercase_from_fixed:
  assumes "\<forall>c \<in> set ws. c \<noteq> 0x3A3 \<and> c \<noteq> 0x130 \<and> simple_lowercase c = c"
  shows "lowercase_from preceding (ws @ cs) = ws @ lowercase_from (rev ws @ preceding) cs"
  using assms by (induction ws arbitrary: preceding) (simp_all add: lowercase_mapping_def)

lemma lowercase_from_append:
  assumes "\<forall>c \<in> set ws. \<not> cased c \<and> c \<noteq> 0x3A3 \<and> c \<noteq> 0x130 \<and> simple_lowercase c = c"
  shows "lowercase_from preceding (cs @ ws) = lowercase_from preceding cs @ ws"
proof (induction cs arbitrary: preceding)
  case Nil
  from assms have "\<forall>c \<in> set ws. c \<noteq> 0x3A3 \<and> c \<noteq> 0x130 \<and> simple_lowercase c = c" by blast
  from lowercase_from_fixed [OF this, of preceding "[]"] show ?case by simp
next
  case (Cons c cs)
  from assms have u: "\<forall>c \<in> set ws. \<not> cased c" by blast
  have "lowercase_mapping (preceding @ []) c (cs @ ws) = lowercase_mapping preceding c cs"
    by (rule lowercase_mapping_context [OF _ u]) simp
  with Cons.IH [of "c # preceding"] show ?case by simp
qed

lemma white_space_units:
  "concat (map utf16_encode_cp (map unat (w :: jsstring))) = w"
proof (induction w)
  case Nil
  show ?case by simp
next
  case (Cons u w)
  have "unat u < 0x10000" using unsigned_less [of u] by simp
  with Cons show ?case by (simp add: utf16_encode_cp_def)
qed

lemma white_space_points:
  assumes "list_all is_white_space w"
  shows "\<forall>c \<in> set (map unat w). \<not> cased c \<and> c \<noteq> 0x3A3 \<and> c \<noteq> 0x130 \<and> simple_lowercase c = c"
  using assms white_space_lower white_space_no_surrogate by (auto simp: list_all_iff)

lemma toLowerCase_surrounded:
  assumes "list_all is_white_space w1" "list_all is_white_space w2"
  shows "toLowerCase (w1 @ s @ w2) = w1 @ toLowerCase s @ w2"
proof -
  note p1 = white_space_points [OF assms(1)] and p2 = white_space_points [OF assms(2)]
  from p1 have f1: "\<forall>c \<in> set (map unat w1). c \<noteq> 0x3A3 \<and> c \<noteq> 0x130 \<and> simple_lowercase c = c"
    by blast
  from p1 have u1: "\<forall>c \<in> set (rev (map unat w1)). \<not> cased c" by simp
  have "lowercase_from [] (map unat w1 @ code_points s @ map unat w2)
      = map unat w1 @ lowercase_from (rev (map unat w1) @ []) (code_points s @ map unat w2)"
    by (rule lowercase_from_fixed [OF f1])
  also have "lowercase_from (rev (map unat w1) @ []) (code_points s @ map unat w2)
      = lowercase_from ([] @ rev (map unat w1)) (code_points s @ map unat w2)"
    by simp
  also have "\<dots> = lowercase_from [] (code_points s @ map unat w2)"
    by (rule lowercase_from_context [OF u1])
  also have "\<dots> = lowercase_from [] (code_points s) @ map unat w2"
    by (rule lowercase_from_append [OF p2])
  finally have "lowercase_from [] (code_points (w1 @ s @ w2))
      = map unat w1 @ lowercase_from [] (code_points s) @ map unat w2"
    by (simp only: code_points_surrounded [OF assms])
  then show ?thesis
    by (simp add: toLowerCase_def white_space_units del: map_map)
qed

lemma white_space_toLowerCase: "list_all is_white_space w \<Longrightarrow> toLowerCase w = w"
  using toLowerCase_surrounded [of w "[]" "[]"] by (simp add: toLowerCase_def)

lemma lowercase_from_alone:
  "0x3A3 \<notin> set cs \<Longrightarrow> lowercase_from preceding cs = concat (map lower_form cs)"
  by (induction cs arbitrary: preceding) (auto simp: lower_form_def lowercase_mapping_def)

lemma same_letters_toLowerCase:
  assumes "list_all2 same_letter (code_points a) (code_points b)"
    and "0x3A3 \<notin> set (code_points a)" "0x3A3 \<notin> set (code_points b)"
  shows "toLowerCase a = toLowerCase b"
proof -
  have "map lower_form (code_points a) = map lower_form (code_points b)"
    using assms(1) by (induction rule: list_all2_induct) (simp_all add: same_letter_def)
  then show ?thesis
    by (simp only: toLowerCase_def lowercase_from_alone [OF assms(2)] lowercase_from_alone [OF assms(3)])
qed

lemma dropWhile_white_space:
  "list_all is_white_space w \<Longrightarrow> dropWhile is_white_space w = []"
  by (simp add: list_all_iff)

lemma trim_white_space: "list_all is_white_space w \<Longrightarrow> trim w = []"
  by (simp add: trim_def dropWhile_white_space)

lemma trim_surrounded:
  assumes "list_all is_white_space w1" "list_all is_white_space w2"
  shows "trim (w1 @ x @ w2) = trim x"
proof -
  have d1: "dropWhile is_white_space (w1 @ x @ w2) = dropWhile is_white_space (x @ w2)"
    using assms(1) by (intro dropWhile_append2) (simp add: list_all_iff)
  show ?thesis
  proof (cases "list_all is_white_space x")
    case True
    then have "list_all is_white_space (x @ w2)"
      using assms(2) by simp
    then have "dropWhile is_white_space (x @ w2) = []"
      by (rule dropWhile_white_space)
    then have "trim (w1 @ x @ w2) = []"
      by (simp only: trim_def d1 rev.simps dropWhile.simps)
    then show ?thesis by (simp only: trim_white_space [OF True])
  next
    case False
    then obtain y where y: "y \<in> set x" "\<not> is_white_space y"
      by (auto simp: list_all_iff)
    then have d2: "dropWhile is_white_space (x @ w2) = dropWhile is_white_space x @ w2"
      by (intro dropWhile_append1)
    have "list_all is_white_space (rev w2)" using assms(2) by simp
    then have "dropWhile is_white_space (rev w2 @ rev (dropWhile is_white_space x))
        = dropWhile is_white_space (rev (dropWhile is_white_space x))"
      by (intro dropWhile_append2) (simp add: list_all_iff)
    then show ?thesis by (simp only: trim_def d1 d2 rev_append)
  qed
qed

lemma length_be_bytes: "length (be_bytes w) = 4"
  by (simp add: be_bytes_def)

lemma length_sha256: "length (sha256 m) = 32"
  by (simp add: sha256_def length_be_bytes split: prod.splits)

lemma length_hex_encode: "length (hex_encode bs) = 2 * length bs"
  by (induction bs) (simp_all add: hex_encode_def)

lemma hex_digit_all: "\<forall>n \<in> set [0..<16]. is_hex_char (hex_digit n)"
  by (simp add: upt_rec hex_digit_def is_hex_char_def)

lemma hex_digit_hex: "n < 16 \<Longrightarrow> is_hex_char (hex_digit n)"
proof -
  assume "n < 16"
  then have "n \<in> set [0..<16]" by simp
  with hex_digit_all show ?thesis by blast
qed

lemma hex_encode_hex: "list_all is_hex_char (hex_encode bs)"
proof (induction bs)
  case Nil
  show ?case by (simp add: hex_encode_def)
next
  case (Cons b bs)
  have "unat b < 256" using unsigned_less [of b] by simp
  then have "unat b div 16 < 16" "unat b mod 16 < 16" by simp_all
  with Cons show ?case by (simp add: hex_encode_def hex_digit_hex)
qed

lemma deterministic_hash_string:
  "s \<noteq> [] \<Longrightarrow> generateDeterministicHash (Str s)
     = Inr (hex_encode (sha256 (utf8_encode (trim (toLowerCase s)))))"
  by (simp add: generateDeterministicHash_def)

text \<open>
  C7, as amended. \<open>generateDeterministicHash\<close> is a function of its argument alone (no
  key, no salt, no state): for a non-empty string it returns the SHA-256 digest, 64
  hexadecimal characters, of the lower-cased and then trimmed string. White space around a
  string \<open>s\<close> never changes the digest. Two strings \<open>a\<close> and \<open>b\<close> that differ only in
  letter case (their code points are pairwise the same letter up to case) and in white
  space around them get the same digest, provided that neither contains the capital sigma
  U+03A3, whose lower-case form depends on its place in the word.
\<close>

theorem deterministic_hash_normalizes:
  assumes "list_all is_white_space w1" "list_all is_white_space w2"
    and "list_all is_white_space w3" "list_all is_white_space w4"
  shows "(s \<noteq> [] \<longrightarrow>
            generateDeterministicHash (Str s)
              = Inr (hex_encode (sha256 (utf8_encode (trim (toLowerCase s))))))
       \<and> (w1 @ s @ w2 \<noteq> [] \<longrightarrow>
            (\<exists>d. generateDeterministicHash (Str (w1 @ s @ w2)) = Inr d
                \<and> d = hex_encode (sha256 (utf8_encode (trim (toLowerCase s))))
                \<and> length d = 64 \<and> list_all is_hex_char d \<and> isValidHash (Str d)))
       \<and> (list_all2 same_letter (code_points a) (code_points b)
            \<and> 0x3A3 \<notin> set (code_points a) \<and> 0x3A3 \<notin> set (code_points b)
            \<and> w1 @ a @ w2 \<noteq> [] \<and> w3 @ b @ w4 \<noteq> [] \<longrightarrow>
            generateDeterministicHash (Str (w1 @ a @ w2))
              = generateDeterministicHash (Str (w3 @ b @ w4)))"
proof -
  have n12: "trim (toLowerCase (w1 @ x @ w2)) = trim (toLowerCase x)" for x
    by (simp only: toLowerCase_surrounded [OF assms(1,2)] trim_surrounded [OF assms(1,2)])
  have n34: "trim (toLowerCase (w3 @ x @ w4)) = trim (toLowerCase x)" for x
    by (simp only: toLowerCase_surrounded [OF assms(3,4)] trim_surrounded [OF assms(3,4)])
  let ?d = "hex_encode (sha256 (utf8_encode (trim (toLowerCase s))))"
  have len: "length ?d = 64" by (simp add: length_hex_encode length_sha256)
  then have "?d \<noteq> []" by auto
  with len have v: "isValidHash (Str ?d)" by (simp add: isValidHash_def hex_encode_hex)
  have one: "s \<noteq> [] \<longrightarrow> generateDeterministicHash (Str s) = Inr ?d"
    by (simp add: deterministic_hash_string)
  have two: "w1 @ s @ w2 \<noteq> [] \<longrightarrow>
      (\<exists>d. generateDeterministicHash (Str (w1 @ s @ w2)) = Inr d \<and> d = ?d
          \<and> length d = 64 \<and> list_all is_hex_char d \<and> isValidHash (Str d))"
  proof
    assume ne: "w1 @ s @ w2 \<noteq> []"
    have "generateDeterministicHash (Str (w1 @ s @ w2)) = Inr ?d"
      by (simp only: deterministic_hash_string [OF ne] n12)
    with len v hex_encode_hex show "\<exists>d. generateDeterministicHash (Str (w1 @ s @ w2)) = Inr d
        \<and> d = ?d \<and> length d = 64 \<and> list_all is_hex_char d \<and> isValidHash (Str d)"
      by blast
  qed
  have three: "list_all2 same_letter (code_points a) (code_points b)
      \<and> 0x3A3 \<notin> set (code_points a) \<and> 0x3A3 \<notin> set (code_points b)
      \<and> w1 @ a @ w2 \<noteq> [] \<and> w3 @ b @ w4 \<noteq> [] \<longrightarrow>
      generateDeterministicHash (Str (w1 @ a @ w2))
        = generateDeterministicHash (Str (w3 @ b @ w4))"
  proof
    assume h: "list_all2 same_letter (code_points a) (code_points b)
      \<and> 0x3A3 \<notin> set (code_points a) \<and> 0x3A3 \<notin> set (code_points b)
      \<and> w1 @ a @ w2 \<noteq> [] \<and> w3 @ b @ w4 \<noteq> []"
    then have l: "toLowerCase a = toLowerCase b"
      by (intro same_letters_toLowerCase) simp_all
    from h have ne: "w1 @ a @ w2 \<noteq> []" "w3 @ b @ w4 \<noteq> []" by simp_all
    show "generateDeterministicHash (Str (w1 @ a @ w2))
        = generateDeterministicHash (Str (w3 @ b @ w4))"
      by (simp only: deterministic_hash_string [OF ne(1)] deterministic_hash_string [OF ne(2)]
          n12 n34 l)
  qed
  from one two three show ?thesis by (intro conjI)
qed

text \<open>
  C10. A non-empty string of white space only passes the guard, which runs before the
  normalization, and is hashed as the empty string: the result is the SHA-256 digest of
  no bytes, in hexadecimal, the same for all such inputs.
\<close>

theorem whitespace_only_hash:
  assumes "s \<noteq> []" "list_all is_white_space s"
  shows "generateDeterministicHash (Str s) = Inr (hex_encode (sha256 []))
    \<and> hex_encode (sha256 [])
        = js ''e3b0c44298fc1c149afbf4c8996fb92427ae41e4649b934ca495991b7852b855''"
proof -
  have "trim (toLowerCase s) = []"
    by (simp only: white_space_toLowerCase [OF assms(2)] trim_white_space [OF assms(2)])
  moreover have "utf8_encode [] = []" by (simp add: utf8_encode_def)
  ultimately have "generateDeterministicHash (Str s) = Inr (hex_encode (sha256 []))"
    by (simp only: deterministic_hash_string [OF assms(1)])
  then show ?thesis by (simp only: sha256_empty_hex simp_thms)
qed

lemma sha256_test_data:
  "sha256 [0x74, 0x65, 0x73, 0x74, 0x20, 0x64, 0x61, 0x74, 0x61] =
     [0x91, 0x6F, 0x00, 0x27, 0xA5, 0x75, 0x07, 0x4C, 0xE7, 0x2A, 0x33, 0x17, 0x77, 0xC3, 0x47, 0x8D,
      0x65, 0x13, 0xF7, 0x86, 0xA5, 0x91, 0xBD, 0x89, 0x2D, 0xA1, 0xA5, 0x77, 0xBF, 0x23, 0x35, 0xF9]"
  by code_simp

lemma sha256_alpha_final_sigma:
  "sha256 [0xCE, 0xB1, 0xCF, 0x82] =
     [0xAA, 0x3D, 0x98, 0xAE, 0x3D, 0xA0, 0xCA, 0xD0, 0xAF, 0x2E, 0x5F, 0xD1, 0x32, 0x71, 0xD4, 0x7C,
      0x46, 0x87, 0xED, 0xEA, 0x23, 0xE9, 0xCB, 0x91, 0xEE, 0xE8, 0xE8, 0x9C, 0xC5, 0x65, 0xD8, 0xD9]"
  by code_simp

lemma sha256_alpha_sigma:
  "sha256 [0xCE, 0xB1, 0xCF, 0x83] =
     [0x57, 0x94, 0xDB, 0x74, 0x6C, 0xAD, 0xD9, 0x22, 0x23, 0xB9, 0xBF, 0x1E, 0x25, 0x78, 0x42, 0xDF,
      0xD0, 0x44, 0x4E, 0xD8, 0xC4, 0xE2, 0xE5, 0xD6, 0xA6, 0xBF, 0xEA, 0xC6, 0xCF, 0xB3, 0x88, 0xCD]"
  by code_simp

lemma code_points_examples:
  "code_points (js ''Test Data'') = [0x54, 0x65, 0x73, 0x74, 0x20, 0x44, 0x61, 0x74, 0x61]"
  "code_points (js ''TEST DATA'') = [0x54, 0x45, 0x53, 0x54, 0x20, 0x44, 0x41, 0x54, 0x41]"
  "code_points (js ''test data'') = [0x74, 0x65, 0x73, 0x74, 0x20, 0x64, 0x61, 0x74, 0x61]"
  "code_points [0xC9] = [0xC9]" "code_points [0xE9] = [0xE9]"
  "code_points [0x391, 0x3A3] = [0x391, 0x3A3]" "code_points [0x391, 0x3C3] = [0x391, 0x3C3]"
  by (simp_all add: js_def is_high_surrogate_def is_low_surrogate_def)

lemma lower_form_examples:
  "lower_form 0x54 = [0x74]" "lower_form 0x74 = [0x74]"
  "lower_form 0x45 = [0x65]" "lower_form 0x65 = [0x65]"
  "lower_form 0x53 = [0x73]" "lower_form 0x73 = [0x73]"
  "lower_form 0x44 = [0x64]" "lower_form 0x64 = [0x64]"
  "lower_form 0x41 = [0x61]" "lower_form 0x61 = [0x61]"
  "lower_form 0x20 = [0x20]"
  "lower_form 0xC9 = [0xE9]" "lower_form 0xE9 = [0xE9]"
  "lower_form 0x391 = [0x3B1]" "lower_form 0x3A3 = [0x3C3]" "lower_form 0x3C3 = [0x3C3]"
  unfolding lower_form_def lowercase_mapping_def final_sigma_def simple_lowercase_def
    lowercase_table_def
  by (simp_all cong: lowercase_in_cong)

lemma digest_test_data:
  "hex_encode (sha256 (utf8_encode (trim (toLowerCase (js ''test data'')))))
     = js ''916f0027a575074ce72a331777c3478d6513f786a591bd892da1a577bf2335f9''"
proof -
  have "0x3A3 \<notin> set (code_points (js ''test data''))"
    by (simp only: code_points_examples) simp
  from lowercase_from_alone [OF this] have "toLowerCase (js ''test data'')
      = concat (map utf16_encode_cp (concat (map lower_form (code_points (js ''test data'')))))"
    by (simp only: toLowerCase_def)
  also have "\<dots> = js ''test data''"
    by (simp only: code_points_examples list.map lower_form_examples)
      (simp add: utf16_encode_cp_def js_def)
  finally have l: "toLowerCase (js ''test data'') = js ''test data''" .
  have t: "trim (js ''test data'') = js ''test data''"
    by (simp add: trim_def js_def is_white_space_def)
  have u: "utf8_encode (js ''test data'')
      = [0x74, 0x65, 0x73, 0x74, 0x20, 0x64, 0x61, 0x74, 0x61]"
    by (simp add: utf8_encode_def js_def is_high_surrogate_def is_low_surrogate_def
        utf8_encode_cp_def)
  show ?thesis
    by (simp only: l t u sha256_test_data) (simp add: hex_encode_def hex_digit_def js_def)
qed

theorem deterministic_hash_normalizes_witness:
  "list_all is_white_space [] \<and> list_all is_white_space (js '' '')
   \<and> list_all2 same_letter (code_points (js ''test data'')) (code_points (js ''Test Data''))
   \<and> list_all2 same_letter (code_points (js ''test data'')) (code_points (js ''TEST DATA''))
   \<and> list_all2 same_letter (code_points [0xC9]) (code_points [0xE9])
   \<and> generateDeterministicHash (Str (js ''test data''))
       = Inr (js ''916f0027a575074ce72a331777c3478d6513f786a591bd892da1a577bf2335f9'')
   \<and> generateDeterministicHash (Str (js ''Test Data''))
       = Inr (js ''916f0027a575074ce72a331777c3478d6513f786a591bd892da1a577bf2335f9'')
   \<and> generateDeterministicHash (Str (js '' TEST DATA ''))
       = Inr (js ''916f0027a575074ce72a331777c3478d6513f786a591bd892da1a577bf2335f9'')
   \<and> generateDeterministicHash (Str [0xC9]) = generateDeterministicHash (Str [0xE9])"
proof -
  have w: "list_all is_white_space []" "list_all is_white_space (js '' '')"
    by (simp_all add: js_def is_white_space_def)
  have l1: "list_all2 same_letter (code_points (js ''test data'')) (code_points (js ''Test Data''))"
    and l2: "list_all2 same_letter (code_points (js ''test data'')) (code_points (js ''TEST DATA''))"
    and l3: "list_all2 same_letter (code_points [0xC9]) (code_points [0xE9])"
    by (simp_all only: code_points_examples list_all2_Cons list_all2_Nil same_letter_def
        lower_form_examples simp_thms)
  have s: "0x3A3 \<notin> set (code_points (js ''test data''))"
    "0x3A3 \<notin> set (code_points (js ''Test Data''))"
    "0x3A3 \<notin> set (code_points (js ''TEST DATA''))"
    "0x3A3 \<notin> set (code_points [0xC9])" "0x3A3 \<notin> set (code_points [0xE9])"
    by (simp_all only: code_points_examples) simp_all
  have e: "[] @ x @ [] = x" "js '' '' @ js ''TEST DATA'' @ js '' '' = js '' TEST DATA ''" for x :: jsstring
    by (simp_all add: js_def)
  have n: "js ''test data'' \<noteq> []" "js ''Test Data'' \<noteq> []" "js '' TEST DATA '' \<noteq> []"
    "[0xC9] \<noteq> ([] :: jsstring)" "[0xE9] \<noteq> ([] :: jsstring)"
    by (simp_all add: js_def)
  note t1 = deterministic_hash_normalizes [OF w(1) w(1) w(1) w(1),
      where s = "js ''test data''" and a = "js ''test data''" and b = "js ''Test Data''",
      unfolded e]
  note t2 = deterministic_hash_normalizes [OF w(1) w(1) w(2) w(2),
      where s = "js ''test data''" and a = "js ''test data''" and b = "js ''TEST DATA''",
      unfolded e]
  note t3 = deterministic_hash_normalizes [OF w(1) w(1) w(1) w(1),
      where s = "[0xC9]" and a = "[0xC9]" and b = "[0xE9]", unfolded e]
  from t1 n(1) have "generateDeterministicHash (Str (js ''test data''))
      = Inr (hex_encode (sha256 (utf8_encode (trim (toLowerCase (js ''test data''))))))"
    by blast
  then have d0: "generateDeterministicHash (Str (js ''test data''))
      = Inr (js ''916f0027a575074ce72a331777c3478d6513f786a591bd892da1a577bf2335f9'')"
    by (simp only: digest_test_data)
  from t1 l1 s(1,2) n(1,2) have "generateDeterministicHash (Str (js ''test data''))
      = generateDeterministicHash (Str (js ''Test Data''))" by blast
  with d0 have d1: "generateDeterministicHash (Str (js ''Test Data''))
      = Inr (js ''916f0027a575074ce72a331777c3478d6513f786a591bd892da1a577bf2335f9'')"
    by (simp only:)
  from t2 l2 s(1,3) n(1,3) have "generateDeterministicHash (Str (js ''test data''))
      = generateDeterministicHash (Str (js '' TEST DATA ''))" by blast
  with d0 have d2: "generateDeterministicHash (Str (js '' TEST DATA ''))
      = Inr (js ''916f0027a575074ce72a331777c3478d6513f786a591bd892da1a577bf2335f9'')"
    by (simp only:)
  from t3 l3 s(4,5) n(4,5) have d3: "generateDeterministicHash (Str [0xC9])
      = generateDeterministicHash (Str [0xE9])" by blast
  show ?thesis
    by (intro conjI w l1 l2 l3 d0 d1 d2 d3)
qed

text \<open>
  Capital alpha followed by capital sigma (U+0391 U+03A3), and capital alpha followed by
  small sigma (U+0391 U+03C3): the two strings differ only in the case of their second
  letter, U+03A3 and U+03C3 have the same lower-case form. At the end of the word the
  capital sigma becomes the final sigma U+03C2, so the two strings are hashed as
  different texts.
\<close>

theorem capital_sigma_digests:
  "list_all2 same_letter (code_points [0x391, 0x3A3]) (code_points [0x391, 0x3C3])
   \<and> toLowerCase [0x391, 0x3A3] = [0x3B1, 0x3C2]
   \<and> toLowerCase [0x391, 0x3C3] = [0x3B1, 0x3C3]
   \<and> generateDeterministicHash (Str [0x391, 0x3A3])
       = Inr (js ''aa3d98ae3da0cad0af2e5fd13271d47c4687edea23e9cb91eee8e89cc565d8d9'')
   \<and> generateDeterministicHash (Str [0x391, 0x3C3])
       = Inr (js ''5794db746cadd92223b9bf1e257842dfd0444ed8c4e2e5d6a6bfeac6cfb388cd'')
   \<and> generateDeterministicHash (Str [0x391, 0x3A3])
       \<noteq> generateDeterministicHash (Str [0x391, 0x3C3])"
proof -
  have r: "list_all2 same_letter (code_points [0x391, 0x3A3]) (code_points [0x391, 0x3C3])"
    by (simp only: code_points_examples list_all2_Cons list_all2_Nil same_letter_def
        lower_form_examples simp_thms)
  have c: "cased 0x391" "\<not> case_ignorable 0x391"
    unfolding cased_def cased_table_def case_ignorable_def case_ignorable_table_def
    by (simp_all cong: in_ranges_cong)
  have f: "final_sigma [0x391] []"
    by (simp add: final_sigma_def c)
  have m: "lowercase_mapping [] 0x391 [0x3A3] = [0x3B1]" "lowercase_mapping [] 0x391 [0x3C3] = [0x3B1]"
    "lowercase_mapping [0x391] 0x3C3 [] = [0x3C3]"
    using lower_form_examples by (simp_all add: lower_form_def lowercase_mapping_def)
  have l1: "toLowerCase [0x391, 0x3A3] = [0x3B1, 0x3C2]"
    by (simp only: toLowerCase_def code_points_examples lowercase_from.simps m)
      (simp add: lowercase_mapping_def f utf16_encode_cp_def)
  have l2: "toLowerCase [0x391, 0x3C3] = [0x3B1, 0x3C3]"
    by (simp only: toLowerCase_def code_points_examples lowercase_from.simps m)
      (simp add: utf16_encode_cp_def)
  have t: "trim [0x3B1, 0x3C2] = [0x3B1, 0x3C2]" "trim [0x3B1, 0x3C3] = [0x3B1, 0x3C3]"
    by (simp_all add: trim_def is_white_space_def)
  have u: "utf8_encode [0x3B1, 0x3C2] = [0xCE, 0xB1, 0xCF, 0x82]"
    "utf8_encode [0x3B1, 0x3C3] = [0xCE, 0xB1, 0xCF, 0x83]"
    by (simp_all add: utf8_encode_def is_high_surrogate_def is_low_surrogate_def
        utf8_encode_cp_def)
  have d1: "generateDeterministicHash (Str [0x391, 0x3A3])
      = Inr (js ''aa3d98ae3da0cad0af2e5fd13271d47c4687edea23e9cb91eee8e89cc565d8d9'')"
    using deterministic_hash_string [of "[0x391, 0x3A3]"]
    by (simp only: l1 t u sha256_alpha_final_sigma) (simp add: hex_encode_def hex_digit_def js_def)
  have d2: "generateDeterministicHash (Str [0x391, 0x3C3])
      = Inr (js ''5794db746cadd92223b9bf1e257842dfd0444ed8c4e2e5d6a6bfeac6cfb388cd'')"
    using deterministic_hash_string [of "[0x391, 0x3C3]"]
    by (simp only: l2 t u sha256_alpha_sigma) (simp add: hex_encode_def hex_digit_def js_def)
  have d3: "generateDeterministicHash (Str [0x391, 0x3A3])
      \<noteq> generateDeterministicHash (Str [0x391, 0x3C3])"
    by (simp only: d1 d2) (simp add: js_def)
  show ?thesis
    by (intro conjI r l1 l2 d1 d2 d3)
qed

theorem whitespace_only_hash_witness:
  "[0x20, 0x09, 0x3000] \<noteq> ([] :: jsstring) \<and> list_all is_white_space [0x20, 0x09, 0x3000]
   \<and> generateDeterministicHash (Str [0x20, 0x09, 0x3000])
       = Inr (js ''e3b0c44298fc1c149afbf4c8996fb92427ae41e4649b934ca495991b7852b855'')"
proof -
  have h: "[0x20, 0x09, 0x3000] \<noteq> ([] :: jsstring)"
    "list_all is_white_space [0x20, 0x09, 0x3000]"
    by (simp_all add: is_white_space_def)
  from whitespace_only_hash [OF h]
  have "generateDeterministicHash (Str [0x20, 0x09, 0x3000])
       = Inr (js ''e3b0c44298fc1c149afbf4c8996fb92427ae41e4649b934ca495991b7852b855'')"
    by (simp only:)
  with h show ?thesis by (simp only: simp_thms)
qed

section \<open>The key cache\<close>

lemma keys_Map_delete: "map fst (Map_delete k c) = remove1 k (map fst c)"
  by (induction c) auto

lemma keys_Map_set:
  "map fst (Map_set k e c) = (if k \<in> fst ` set c then map fst c else map fst c @ [k])"
proof (induction c)
  case Nil
  show ?case by simp
next
  case (Cons p c)
  obtain k' e' where p: "p = (k', e')" by (cases p)
  show ?case
  proof (cases "k' = k")
    case True
    with p show ?thesis by simp
  next
    case False
    with p Cons show ?thesis by (cases "k \<in> fst ` set c") simp_all
  qed
qed

lemma length_Map_delete_le: "length (Map_delete k c) \<le> length c"
  by (induction c) auto

lemma length_Map_set_le: "length (Map_set k e c) \<le> Suc (length c)"
  by (induction c) auto

lemma cache_ok_Map_delete: "cache_ok c \<Longrightarrow> cache_ok (Map_delete k c)"
proof -
  assume ok: "cache_ok c"
  have "set (map fst (Map_delete k c)) \<subseteq> set (map fst c)"
    by (simp only: keys_Map_delete set_remove1_subset)
  moreover have "distinct (map fst (Map_delete k c))"
    using ok by (simp only: keys_Map_delete) (simp add: cache_ok_def)
  moreover have "length (Map_delete k c) \<le> MAX_CACHE_SIZE"
    using ok length_Map_delete_le [of k c] by (simp add: cache_ok_def)
  ultimately show ?thesis
    using ok unfolding cache_ok_def by auto
qed

lemma cache_ok_Map_set:
  assumes "distinct (map fst c)" "[] \<notin> fst ` set c" "length c < MAX_CACHE_SIZE" "k \<noteq> []"
  shows "cache_ok (Map_set k e c)"
proof -
  have "distinct (map fst (Map_set k e c))"
    using assms(1) by (simp add: keys_Map_set)
  moreover have "set (map fst (Map_set k e c)) \<subseteq> insert k (set (map fst c))"
    by (auto simp: keys_Map_set)
  then have "[] \<notin> fst ` set (Map_set k e c)"
    using assms(2,4) by auto
  moreover have "length (Map_set k e c) \<le> MAX_CACHE_SIZE"
    using assms(3) length_Map_set_le [of k e c] by simp
  ultimately show ?thesis by (simp add: cache_ok_def)
qed

lemma Map_delete_head: "Map_delete k ((k, e) # c) = c"
  by simp

lemma key_paths_nonempty: "ENCRYPTION_KEY_PATHS p \<noteq> []"
  by (cases p) (simp_all add: js_def)

text \<open>The key paths of the field registry, which the interception layer hands to the
  encryption, are not empty either.\<close>

lemma registry_key_paths_nonempty:
  assumes "map_of ENCRYPTED_FIELD_MAP model = Some cs"
  shows "\<forall>c \<in> set cs. keyPath c \<noteq> []"
proof -
  from assms have "(model, cs) \<in> set ENCRYPTED_FIELD_MAP" by (rule map_of_SomeD)
  then show ?thesis
    unfolding ENCRYPTED_FIELD_MAP_def
    by (auto simp: field_config_def)
qed

text \<open>
  C6. The key cache never holds more than \<open>MAX_CACHE_SIZE\<close> entries. The cache starts
  empty, and the key paths that reach it are those of \<open>EncryptionKeyPath\<close>, none of them
  the empty string. The state \<open>cache_ok\<close> (at most \<open>MAX_CACHE_SIZE\<close> entries, no empty key
  path) holds of the empty cache and is kept by every insertion of a non-empty key path,
  by every lookup with its lazy eviction of an expired entry, and by clearing; and an
  insertion into a full cache first evicts the oldest entry, the head of the insertion
  order.
\<close>

theorem cache_bound_preserved:
  assumes "cache_ok c" "path \<noteq> []"
  shows "cache_ok (cacheKey path k life now c)
       \<and> cache_ok (snd (getCachedKey other now c))
       \<and> cache_ok (clearKeyCache c)
       \<and> (length c = MAX_CACHE_SIZE \<longrightarrow>
            cacheKey path k life now c
              = Map_set path \<lparr>entry_key = k, timestamp = now, ttl = life\<rparr> (tl c))
       \<and> cache_ok []
       \<and> ENCRYPTION_KEY_PATHS p \<noteq> []
       \<and> cache_ok (cacheKey (ENCRYPTION_KEY_PATHS p) k life now c)
       \<and> length (cacheKey path k life now c) \<le> MAX_CACHE_SIZE
       \<and> length (snd (getCachedKey other now c)) \<le> MAX_CACHE_SIZE
       \<and> length (clearKeyCache c) \<le> MAX_CACHE_SIZE"
proof -
  have d: "distinct (map fst c)" and n: "[] \<notin> fst ` set c" and l: "length c \<le> MAX_CACHE_SIZE"
    using assms(1) by (simp_all add: cache_ok_def)
  have full: "cacheKey q k life now c
      = Map_set q \<lparr>entry_key = k, timestamp = now, ttl = life\<rparr> (tl c)"
    if "length c = MAX_CACHE_SIZE" for q
  proof (cases c)
    case Nil
    with that show ?thesis by (simp add: MAX_CACHE_SIZE_def)
  next
    case (Cons e rest)
    obtain k0 e0 where e: "e = (k0, e0)" by (cases e)
    have "k0 \<noteq> []" using n Cons e by auto
    with that Cons e show ?thesis by (simp add: cacheKey_def)
  qed
  have ins: "cache_ok (cacheKey q k life now c)" if q: "q \<noteq> []" for q
  proof (cases "length c = MAX_CACHE_SIZE")
    case True
    have "distinct (map fst (tl c))" "[] \<notin> fst ` set (tl c)"
      using d n by (cases c; auto)+
    moreover have "length (tl c) < MAX_CACHE_SIZE"
      using True by (simp add: MAX_CACHE_SIZE_def)
    ultimately show ?thesis
      by (simp only: full [OF True]) (rule cache_ok_Map_set [OF _ _ _ q])
  next
    case False
    with l have lt: "length c < MAX_CACHE_SIZE" by simp
    then have "cacheKey q k life now c
        = Map_set q \<lparr>entry_key = k, timestamp = now, ttl = life\<rparr> c"
      by (simp add: cacheKey_def)
    then show ?thesis
      by (simp only:) (rule cache_ok_Map_set [OF d n lt q])
  qed
  have look: "cache_ok (snd (getCachedKey other now c))"
    using assms(1) by (simp add: getCachedKey_def cache_ok_Map_delete split: option.splits)
  have clear: "cache_ok (clearKeyCache c)"
    by (simp add: clearKeyCache_def cache_ok_def)
  have init: "cache_ok []"
    by (simp add: cache_ok_def)
  have size: "length x \<le> MAX_CACHE_SIZE" if "cache_ok x" for x
    using that by (simp add: cache_ok_def)
  have f: "length c = MAX_CACHE_SIZE \<longrightarrow>
      cacheKey path k life now c
        = Map_set path \<lparr>entry_key = k, timestamp = now, ttl = life\<rparr> (tl c)"
    using full by blast
  show ?thesis
    by (intro conjI ins [OF assms(2)] look clear f init key_paths_nonempty
        ins [OF key_paths_nonempty] size [OF ins [OF assms(2)]] size [OF look] size [OF clear])
qed

text \<open>
  The guard \<open>if (oldestKey)\<close> of \<open>cacheKey\<close> reads the oldest key path as a truth value.
  The empty string is no \<open>EncryptionKeyPath\<close> and so never reaches the cache; were it
  cached first, it would not be evicted, and an eleventh key path would be added to the
  ten.
\<close>

lemma empty_key_path_not_evicted:
  "length (foldl (\<lambda>c path. cacheKey path example_key DEFAULT_CACHE_TTL 0 c) []
     [[], js ''a'', js ''b'', js ''c'', js ''d'', js ''e'', js ''f'', js ''g'', js ''h'', js ''i''])
     = 10
   \<and> length (foldl (\<lambda>c path. cacheKey path example_key DEFAULT_CACHE_TTL 0 c) []
     [[], js ''a'', js ''b'', js ''c'', js ''d'', js ''e'', js ''f'', js ''g'', js ''h'', js ''i'',
      js ''j'']) = 11
   \<and> MAX_CACHE_SIZE = 10"
  by (simp add: cacheKey_def MAX_CACHE_SIZE_def js_def)

theorem cache_bound_preserved_witness:
  "cache_ok (map (\<lambda>p. (p, \<lparr>entry_key = example_key, timestamp = 0, ttl = 5\<rparr>))
      [js ''a'', js ''b'', js ''c'', js ''d'', js ''e'', js ''f'', js ''g'', js ''h'', js ''i'',
       js ''j''])
   \<and> js ''k'' \<noteq> []
   \<and> cache_ok (cacheKey (js ''k'') example_key 5 7
        (map (\<lambda>p. (p, \<lparr>entry_key = example_key, timestamp = 0, ttl = 5\<rparr>))
          [js ''a'', js ''b'', js ''c'', js ''d'', js ''e'', js ''f'', js ''g'', js ''h'',
           js ''i'', js ''j'']))
   \<and> cache_ok (snd (getCachedKey (js ''a'') 7
        (map (\<lambda>p. (p, \<lparr>entry_key = example_key, timestamp = 0, ttl = 5\<rparr>))
          [js ''a'', js ''b'', js ''c'', js ''d'', js ''e'', js ''f'', js ''g'', js ''h'',
           js ''i'', js ''j''])))
   \<and> length (map (\<lambda>p. (p, \<lparr>entry_key = example_key, timestamp = 0, ttl = 5\<rparr>))
          [js ''a'', js ''b'', js ''c'', js ''d'', js ''e'', js ''f'', js ''g'', js ''h'',
           js ''i'', js ''j'']) = MAX_CACHE_SIZE
   \<and> cacheKey (js ''k'') example_key 5 7
        (map (\<lambda>p. (p, \<lparr>entry_key = example_key, timestamp = 0, ttl = 5\<rparr>))
          [js ''a'', js ''b'', js ''c'', js ''d'', js ''e'', js ''f'', js ''g'', js ''h'',
           js ''i'', js ''j''])
      = map (\<lambda>p. (p, \<lparr>entry_key = example_key, timestamp = 0, ttl = 5\<rparr>))
          [js ''b'', js ''c'', js ''d'', js ''e'', js ''f'', js ''g'', js ''h'', js ''i'',
           js ''j'']
        @ [(js ''k'', \<lparr>entry_key = example_key, timestamp = 7, ttl = 5\<rparr>)]"
proof -
  let ?c = "map (\<lambda>p. (p, \<lparr>entry_key = example_key, timestamp = 0, ttl = 5\<rparr>))
      [js ''a'', js ''b'', js ''c'', js ''d'', js ''e'', js ''f'', js ''g'', js ''h'', js ''i'',
       js ''j'']"
  have ok: "cache_ok ?c"
    by (simp add: cache_ok_def MAX_CACHE_SIZE_def js_def)
  have k: "js ''k'' \<noteq> []" by (simp add: js_def)
  have len: "length ?c = MAX_CACHE_SIZE" by (simp add: MAX_CACHE_SIZE_def)
  have set: "Map_set (js ''k'') \<lparr>entry_key = example_key, timestamp = 7, ttl = 5\<rparr> (tl ?c)
      = map (\<lambda>p. (p, \<lparr>entry_key = example_key, timestamp = 0, ttl = 5\<rparr>))
          [js ''b'', js ''c'', js ''d'', js ''e'', js ''f'', js ''g'', js ''h'', js ''i'',
           js ''j'']
        @ [(js ''k'', \<lparr>entry_key = example_key, timestamp = 7, ttl = 5\<rparr>)]"
    by (simp add: js_def)
  note t = cache_bound_preserved [OF ok k, where k = example_key and life = 5 and now = 7
      and other = "js ''a''"]
  from t have a: "cache_ok (cacheKey (js ''k'') example_key 5 7 ?c)"
    and b: "cache_ok (snd (getCachedKey (js ''a'') 7 ?c))" by blast+
  from t len have "cacheKey (js ''k'') example_key 5 7 ?c
      = Map_set (js ''k'') \<lparr>entry_key = example_key, timestamp = 7, ttl = 5\<rparr> (tl ?c)"
    by blast
  then have e: "cacheKey (js ''k'') example_key 5 7 ?c
      = map (\<lambda>p. (p, \<lparr>entry_key = example_key, timestamp = 0, ttl = 5\<rparr>))
          [js ''b'', js ''c'', js ''d'', js ''e'', js ''f'', js ''g'', js ''h'', js ''i'',
           js ''j'']
        @ [(js ''k'', \<lparr>entry_key = example_key, timestamp = 7, ttl = 5\<rparr>)]"
    by (simp only: set)
  show ?thesis
    by (intro conjI ok k a b len e)
qed

section \<open>The interception layer\<close>

lemma hash_of_string:
  "s \<noteq> [] \<Longrightarrow> createUniqueConstraintHash (Str s)
     = Inr (hex_encode (sha256 (utf8_encode (trim (toLowerCase s)))))"
  by (simp add: createUniqueConstraintHash_def generateDeterministicHash_def)

text \<open>One field, a non-empty string: the step never throws.\<close>

lemma store_field_string:
  assumes "s \<noteq> []"
  shows "store_field ev c (Str s) t =
    Inr (case encrypt_value ev c (Str s) of
           Inr ct \<Rightarrow> ((t (fieldName c := None)) (encryptedField c \<mapsto> Str ct))
                      (hashField c \<mapsto> Str (hex_encode (sha256 (utf8_encode (trim (toLowerCase s))))))
         | Inl e \<Rightarrow> ((t (encryptedField c \<mapsto> Str s))
                      (hashField c \<mapsto> Str (hex_encode (sha256 (utf8_encode (trim (toLowerCase s)))))))
                      (fieldName c := None))"
  by (simp add: store_field_def hash_of_string [OF assms] split: sum.splits)

lemma store_field_frame:
  "store_field ev c v t = Inr t' \<Longrightarrow> x \<notin> set (columns c) \<Longrightarrow> t' x = t x"
  by (auto simp: store_field_def columns_def split: sum.splits prod.splits)

lemma store_fields_frame:
  "store_fields ev data cs t = Inr t' \<Longrightarrow> \<forall>c \<in> set cs. x \<notin> set (columns c) \<Longrightarrow> t' x = t x"
proof (induction cs arbitrary: t)
  case Nil
  then show ?case by simp
next
  case (Cons c cs)
  show ?case
  proof (cases "get_prop data (fieldName c) \<noteq> Undefined \<and> get_prop data (fieldName c) \<noteq> Null")
    case True
    with Cons.prems(1) obtain t1 where
      t1: "store_field ev c (get_prop data (fieldName c)) t = Inr t1"
      and rest: "store_fields ev data cs t1 = Inr t'"
      by (auto split: sum.splits)
    have "t' x = t1 x" using Cons.IH [OF rest] Cons.prems(2) by simp
    also have "t1 x = t x" using store_field_frame [OF t1] Cons.prems(2) by simp
    finally show ?thesis .
  next
    case False
    with Cons.prems(1) have "store_fields ev data cs t = Inr t'" by auto
    then show ?thesis using Cons.IH Cons.prems(2) by simp
  qed
qed

lemma store_fields_succeeds:
  "\<forall>c \<in> set cs. storable (get_prop data (fieldName c))
     \<Longrightarrow> \<exists>t'. store_fields ev data cs t = Inr t'"
proof (induction cs arbitrary: t)
  case Nil
  show ?case by simp
next
  case (Cons c cs)
  then have st: "storable (get_prop data (fieldName c))" by simp
  show ?case
  proof (cases "get_prop data (fieldName c)")
    case (Str s)
    with st have "s \<noteq> []" by simp
    with Str Cons show ?thesis by (simp add: store_field_string)
  qed (use st Cons in simp_all)
qed

lemma columns_distinct_Cons:
  assumes "distinct (concat (map columns (c # cs)))"
  shows "distinct (columns c)" "distinct (concat (map columns cs))"
    "\<forall>c' \<in> set cs. \<forall>x \<in> set (columns c). x \<notin> set (columns c')"
    "\<forall>c' \<in> set cs. \<forall>x \<in> set (columns c'). x \<notin> set (columns c)"
  using assms by auto

lemma store_fields_written:
  assumes "distinct (concat (map columns cs))" "c \<in> set cs"
    "store_fields ev data cs t = Inr t'" "get_prop data (fieldName c) = Str s" "s \<noteq> []"
  shows "t' (fieldName c) = None
    \<and> t' (encryptedField c)
        = Some (case encrypt_value ev c (Str s) of Inr ct \<Rightarrow> Str ct | Inl e \<Rightarrow> Str s)
    \<and> t' (hashField c) = Some (Str (hex_encode (sha256 (utf8_encode (trim (toLowerCase s))))))"
  using assms
proof (induction cs arbitrary: t)
  case Nil
  then show ?case by simp
next
  case (Cons c0 cs)
  note d = columns_distinct_Cons [OF Cons.prems(1)]
  show ?case
  proof (cases "c = c0")
    case True
    let ?t1 = "case encrypt_value ev c0 (Str s) of
           Inr ct \<Rightarrow> ((t (fieldName c0 := None)) (encryptedField c0 \<mapsto> Str ct))
                      (hashField c0 \<mapsto> Str (hex_encode (sha256 (utf8_encode (trim (toLowerCase s))))))
         | Inl e \<Rightarrow> ((t (encryptedField c0 \<mapsto> Str s))
                      (hashField c0 \<mapsto> Str (hex_encode (sha256 (utf8_encode (trim (toLowerCase s)))))))
                      (fieldName c0 := None)"
    have rest: "store_fields ev data cs ?t1 = Inr t'"
      using Cons.prems(3,4,5) [unfolded True] by (simp add: store_field_string)
    have names: "fieldName c0 \<noteq> encryptedField c0" "fieldName c0 \<noteq> hashField c0"
      "encryptedField c0 \<noteq> hashField c0"
      using d(1) by (auto simp: columns_def)
    have frame: "t' x = ?t1 x" if "x \<in> set (columns c0)" for x
      using store_fields_frame [OF rest, of x] d(3) that by blast
    have "fieldName c0 \<in> set (columns c0)" "encryptedField c0 \<in> set (columns c0)"
      "hashField c0 \<in> set (columns c0)" by (simp_all add: columns_def)
    then show ?thesis
      unfolding True using names by (auto simp: frame split: sum.splits)
  next
    case False
    with Cons.prems(2) have c: "c \<in> set cs" by simp
    show ?thesis
    proof (cases "get_prop data (fieldName c0) \<noteq> Undefined \<and> get_prop data (fieldName c0) \<noteq> Null")
      case True
      with Cons.prems(3) obtain t1 where "store_fields ev data cs t1 = Inr t'"
        by (auto split: sum.splits)
      then show ?thesis using Cons.IH [OF d(2) c _ Cons.prems(4,5)] by blast
    next
      case False
      with Cons.prems(3) have "store_fields ev data cs t = Inr t'" by auto
      then show ?thesis using Cons.IH [OF d(2) c _ Cons.prems(4,5)] by blast
    qed
  qed
qed

lemma store_fields_skipped:
  assumes "distinct (concat (map columns cs))" "c \<in> set cs"
    "store_fields ev data cs t = Inr t'"
    "get_prop data (fieldName c) = Undefined \<or> get_prop data (fieldName c) = Null"
    "x \<in> set (columns c)"
  shows "t' x = t x"
  using assms
proof (induction cs arbitrary: t)
  case Nil
  then show ?case by simp
next
  case (Cons c0 cs)
  note d = columns_distinct_Cons [OF Cons.prems(1)]
  show ?case
  proof (cases "c = c0")
    case True
    with Cons.prems(3,4) have rest: "store_fields ev data cs t = Inr t'" by auto
    show ?thesis
      using store_fields_frame [OF rest, of x] d(3) Cons.prems(5) True by blast
  next
    case False
    with Cons.prems(2) have c: "c \<in> set cs" by simp
    show ?thesis
    proof (cases "get_prop data (fieldName c0) \<noteq> Undefined \<and> get_prop data (fieldName c0) \<noteq> Null")
      case True
      with Cons.prems(3) obtain t1 where
        t1: "store_field ev c0 (get_prop data (fieldName c0)) t = Inr t1"
        and rest: "store_fields ev data cs t1 = Inr t'"
        by (auto split: sum.splits)
      have "x \<notin> set (columns c0)" using d(4) c Cons.prems(5) by blast
      then have "t1 x = t x" by (rule store_field_frame [OF t1])
      moreover have "t' x = t1 x" by (rule Cons.IH [OF d(2) c rest Cons.prems(4,5)])
      ultimately show ?thesis by simp
    next
      case False
      with Cons.prems(3) have "store_fields ev data cs t = Inr t'" by auto
      then show ?thesis by (rule Cons.IH [OF d(2) c _ Cons.prems(4,5)])
    qed
  qed
qed

lemma read_fields_frame:
  "\<forall>c \<in> set cs. x \<noteq> fieldName c \<Longrightarrow> read_fields ev r cs t x = t x"
  by (induction cs arbitrary: t) (auto simp: read_field_def split: sum.splits)

lemma read_fields_decrypted:
  assumes "distinct (map fieldName cs)" "c \<in> set cs"
    "get_prop r (encryptedField c) \<noteq> Undefined" "get_prop r (encryptedField c) \<noteq> Null"
  shows "read_fields ev r cs t (fieldName c)
     = Some (case decrypt_value ev c (get_prop r (encryptedField c)) of
               Inr p \<Rightarrow> Str p | Inl e \<Rightarrow> get_prop r (encryptedField c))"
  using assms
proof (induction cs arbitrary: t)
  case Nil
  then show ?case by simp
next
  case (Cons c0 cs)
  show ?case
  proof (cases "c = c0")
    case True
    then have "\<forall>c' \<in> set cs. fieldName c \<noteq> fieldName c'"
      using Cons.prems(1) by auto
    then have "read_fields ev r cs t' (fieldName c) = t' (fieldName c)" for t'
      by (rule read_fields_frame)
    then show ?thesis
      using True Cons.prems(3,4) by (simp add: read_field_def split: sum.splits)
  next
    case False
    with Cons.prems have c: "c \<in> set cs" and d: "distinct (map fieldName cs)" by simp_all
    show ?thesis
      using Cons.IH [OF d c Cons.prems(3,4)] by simp
  qed
qed

lemma registry_columns_distinct:
  assumes "map_of ENCRYPTED_FIELD_MAP model = Some cs"
  shows "distinct (concat (map columns cs))"
proof -
  from assms have "(model, cs) \<in> set ENCRYPTED_FIELD_MAP" by (rule map_of_SomeD)
  then show ?thesis
    unfolding ENCRYPTED_FIELD_MAP_def
    by (auto simp: columns_def field_config_def)
qed

lemma distinct_fieldNames:
  "distinct (concat (map columns cs)) \<Longrightarrow> distinct (map fieldName cs)"
  by (induction cs) (auto simp: columns_def)

lemma mock_prefix_nonempty: "mock_prefix @ x \<noteq> []"
  by (simp add: mock_prefix_def js_def)

lemma mockEncrypt_string:
  "s \<noteq> [] \<Longrightarrow> mockEncrypt (Str s) = Inr (mock_prefix @ base64_encode (utf8_encode s))"
  by (simp add: mockEncrypt_def)

lemma mock_prefix_not_Nil: "mock_prefix \<noteq> []"
  by (simp add: mock_prefix_def js_def)

lemma mockDecrypt_mockEncrypt:
  assumes "isWellFormed s"
  shows "mockDecrypt (Str (mock_prefix @ base64_encode (utf8_encode s))) = Inr s"
  by (simp add: mockDecrypt_def mock_prefix_not_Nil base64_decode_encode
      utf8_toString_encode [OF assms])

text \<open>
  C4, as amended. Take a record for a registered model in which every sensitive field is
  absent, \<open>null\<close> or a non-empty string, and let the encryption of those strings not
  throw (in mock mode it never does). Then the write path returns a record in which, for
  every sensitive field that carried a string, the plain property is gone, the ciphertext
  column holds what the encryption returned and the digest column holds the deterministic
  hash of the plaintext; the three properties of a sensitive field that was absent or
  \<open>null\<close>, and every property that belongs to no sensitive field, are as in the input;
  and wherever decryption returns the plaintext for the stored ciphertext (in mock mode:
  for every well-formed string), the read path on the stored record puts the plaintext
  back under the plain name.
\<close>

theorem write_then_read:
  assumes reg: "map_of ENCRYPTED_FIELD_MAP model = Some configs"
    and ok: "\<forall>c \<in> set configs. storable (get_prop data (fieldName c))"
    and enc: "\<forall>c \<in> set configs. \<forall>s. get_prop data (fieldName c) = Str s \<longrightarrow>
                (\<exists>ct. encrypt_value ev c (Str s) = Inr ct)"
  shows "\<exists>stored. transformDataForStorage ev model data = Inr stored
     \<and> (\<forall>c \<in> set configs. \<forall>s. get_prop data (fieldName c) = Str s \<longrightarrow>
           stored (fieldName c) = None
         \<and> (\<exists>ct. encrypt_value ev c (Str s) = Inr ct
                \<and> stored (encryptedField c) = Some (Str ct)
                \<and> (decrypt_value ev c (Str ct) = Inr s \<longrightarrow>
                     transformRecordForReading ev model stored (fieldName c) = Some (Str s)))
         \<and> (\<exists>h. generateDeterministicHash (Str s) = Inr h
                \<and> stored (hashField c) = Some (Str h)))
     \<and> (\<forall>c \<in> set configs.
           get_prop data (fieldName c) = Undefined \<or> get_prop data (fieldName c) = Null \<longrightarrow>
           (\<forall>x \<in> set (columns c). stored x = data x))
     \<and> (\<forall>x. (\<forall>c \<in> set configs. x \<notin> set (columns c)) \<longrightarrow> stored x = data x)"
proof -
  note d = registry_columns_distinct [OF reg]
  obtain stored where st: "store_fields ev data configs data = Inr stored"
    using store_fields_succeeds [OF ok] by blast
  then have tr: "transformDataForStorage ev model data = Inr stored"
    by (simp add: transformDataForStorage_def reg)
  have written: "stored (fieldName c) = None
         \<and> (\<exists>ct. encrypt_value ev c (Str s) = Inr ct
                \<and> stored (encryptedField c) = Some (Str ct)
                \<and> (decrypt_value ev c (Str ct) = Inr s \<longrightarrow>
                     transformRecordForReading ev model stored (fieldName c) = Some (Str s)))
         \<and> (\<exists>h. generateDeterministicHash (Str s) = Inr h
                \<and> stored (hashField c) = Some (Str h))"
    if c: "c \<in> set configs" and s: "get_prop data (fieldName c) = Str s" for c s
  proof -
    from ok c s have ne: "s \<noteq> []" by auto
    from enc c s obtain ct where ct: "encrypt_value ev c (Str s) = Inr ct" by blast
    note w = store_fields_written [OF d c st s ne]
    have col: "stored (encryptedField c) = Some (Str ct)" using w ct by simp
    have rd: "transformRecordForReading ev model stored (fieldName c) = Some (Str s)"
      if "decrypt_value ev c (Str ct) = Inr s"
    proof -
      have p: "get_prop stored (encryptedField c) = Str ct" by (simp add: get_prop_def col)
      show ?thesis
        using read_fields_decrypted [OF distinct_fieldNames [OF d] c, of stored ev stored] that
        by (simp add: transformRecordForReading_def reg p)
    qed
    have "generateDeterministicHash (Str s)
        = Inr (hex_encode (sha256 (utf8_encode (trim (toLowerCase s)))))"
      using ne by (simp add: generateDeterministicHash_def)
    with w ct col rd show ?thesis by blast
  qed
  have skipped: "\<forall>x \<in> set (columns c). stored x = data x"
    if "c \<in> set configs"
      and "get_prop data (fieldName c) = Undefined \<or> get_prop data (fieldName c) = Null" for c
    using store_fields_skipped [OF d that(1) st that(2)] by blast
  have other: "stored x = data x" if "\<forall>c \<in> set configs. x \<notin> set (columns c)" for x
    using store_fields_frame [OF st that] .
  from tr written skipped other show ?thesis by blast
qed

text \<open>In mock mode the encryption of a non-empty string never throws, and decryption undoes
  it on every well-formed string.\<close>

lemma mock_mode_inverse:
  assumes "isMockMode ev" "s \<noteq> []"
  shows "encrypt_value ev c (Str s) = Inr (mock_prefix @ base64_encode (utf8_encode s))"
    and "isWellFormed s \<Longrightarrow>
      decrypt_value ev c (Str (mock_prefix @ base64_encode (utf8_encode s))) = Inr s"
  using assms
  by (simp_all add: encrypt_value_def decrypt_value_def mockEncrypt_string
      mockDecrypt_mockEncrypt)

lemma user_configs:
  "map_of ENCRYPTED_FIELD_MAP ''User'' = Some
     [field_config ''firstName'' ''/app/encryption/names-key'',
      field_config ''lastName'' ''/app/encryption/names-key'',
      field_config ''email'' ''/app/encryption/email-key'',
      field_config ''phone'' ''/app/encryption/phone-key'',
      field_config ''phoneVerificationCode'' ''/app/encryption/temp-key'']"
  by (simp add: ENCRYPTED_FIELD_MAP_def)

text \<open>When the encryption of a field throws and the value is a non-empty string, the write
  path stores the value itself in the ciphertext column and goes on.\<close>

lemma plaintext_fallback:
  assumes reg: "map_of ENCRYPTED_FIELD_MAP model = Some configs"
    and ok: "\<forall>c \<in> set configs. storable (get_prop data (fieldName c))"
    and c: "c \<in> set configs" and s: "get_prop data (fieldName c) = Str s"
    and fails: "encrypt_value ev c (Str s) = Inl e"
  shows "\<exists>stored. transformDataForStorage ev model data = Inr stored
    \<and> stored (fieldName c) = None \<and> stored (encryptedField c) = Some (Str s)"
proof -
  obtain stored where st: "store_fields ev data configs data = Inr stored"
    using store_fields_succeeds [OF ok] by blast
  from ok c s have ne: "s \<noteq> []" by auto
  note w = store_fields_written [OF registry_columns_distinct [OF reg] c st s ne]
  show ?thesis
    using st w fails by (simp add: transformDataForStorage_def reg)
qed

theorem write_fails_on_empty_string:
  "transformDataForStorage mock_env ''User'' [''email'' \<mapsto> Str []]
     = Inl (Error (Message ''Invalid data: must be a non-empty string''))"
  by (simp add: transformDataForStorage_def user_configs field_config_def get_prop_def
      store_field_def encrypt_value_def mock_env_def mockEncrypt_def
      createUniqueConstraintHash_def generateDeterministicHash_def)

lemma user_storable:
  "get_prop r ''firstName'' \<in> {Undefined, Null} \<Longrightarrow> get_prop r ''lastName'' \<in> {Undefined, Null}
   \<Longrightarrow> get_prop r ''phone'' \<in> {Undefined, Null}
   \<Longrightarrow> get_prop r ''phoneVerificationCode'' \<in> {Undefined, Null}
   \<Longrightarrow> get_prop r ''email'' = Str s \<Longrightarrow> s \<noteq> []
   \<Longrightarrow> \<forall>c \<in> set [field_config ''firstName'' ''/app/encryption/names-key'',
      field_config ''lastName'' ''/app/encryption/names-key'',
      field_config ''email'' ''/app/encryption/email-key'',
      field_config ''phone'' ''/app/encryption/phone-key'',
      field_config ''phoneVerificationCode'' ''/app/encryption/temp-key''].
        storable (get_prop r (fieldName c))"
  by (auto simp: field_config_def)

theorem write_then_read_witness:
  "map_of ENCRYPTED_FIELD_MAP ''User'' = Some
     [field_config ''firstName'' ''/app/encryption/names-key'',
      field_config ''lastName'' ''/app/encryption/names-key'',
      field_config ''email'' ''/app/encryption/email-key'',
      field_config ''phone'' ''/app/encryption/phone-key'',
      field_config ''phoneVerificationCode'' ''/app/encryption/temp-key'']
   \<and> (\<exists>stored.
        transformDataForStorage mock_env ''User''
          [''email'' \<mapsto> Str (js ''john.doe@example.com''), ''firstName'' \<mapsto> Null,
           ''role'' \<mapsto> Str (js ''CLIENT'')] = Inr stored
      \<and> stored ''email'' = None
      \<and> stored ''email_encrypted''
          = Some (Str (mock_prefix @ base64_encode (utf8_encode (js ''john.doe@example.com''))))
      \<and> (\<exists>h. generateDeterministicHash (Str (js ''john.doe@example.com'')) = Inr h
             \<and> stored ''email_hash'' = Some (Str h))
      \<and> transformRecordForReading mock_env ''User'' stored ''email''
          = Some (Str (js ''john.doe@example.com''))
      \<and> stored ''firstName'' = Some Null \<and> stored ''firstName_encrypted'' = None
      \<and> stored ''firstName_hash'' = None
      \<and> stored ''role'' = Some (Str (js ''CLIENT'')))"
proof -
  let ?data = "[''email'' \<mapsto> Str (js ''john.doe@example.com''), ''firstName'' \<mapsto> Null,
           ''role'' \<mapsto> Str (js ''CLIENT'')]"
  let ?configs = "[field_config ''firstName'' ''/app/encryption/names-key'',
      field_config ''lastName'' ''/app/encryption/names-key'',
      field_config ''email'' ''/app/encryption/email-key'',
      field_config ''phone'' ''/app/encryption/phone-key'',
      field_config ''phoneVerificationCode'' ''/app/encryption/temp-key'']"
  let ?email = "field_config ''email'' ''/app/encryption/email-key''"
  let ?first = "field_config ''firstName'' ''/app/encryption/names-key''"
  have mock: "isMockMode mock_env" by (simp add: mock_env_def)
  have ne: "js ''john.doe@example.com'' \<noteq> []" by (simp add: js_def)
  have wf: "isWellFormed (js ''john.doe@example.com'')"
    by (simp add: js_def is_high_surrogate_def is_low_surrogate_def)
  have ok: "\<forall>c \<in> set ?configs. storable (get_prop ?data (fieldName c))"
    by (rule user_storable [where s = "js ''john.doe@example.com''"])
      (simp_all add: get_prop_def ne)
  have enc: "\<forall>c \<in> set ?configs. \<forall>s. get_prop ?data (fieldName c) = Str s \<longrightarrow>
                (\<exists>ct. encrypt_value mock_env c (Str s) = Inr ct)"
  proof (intro ballI allI impI)
    fix c s assume "c \<in> set ?configs" "get_prop ?data (fieldName c) = Str s"
    with ok have "s \<noteq> []" by auto
    then show "\<exists>ct. encrypt_value mock_env c (Str s) = Inr ct"
      using mock_mode_inverse(1) [OF mock] by blast
  qed
  have email: "?email \<in> set ?configs" "get_prop ?data (fieldName ?email) = Str (js ''john.doe@example.com'')"
    "fieldName ?email = ''email''" "encryptedField ?email = ''email_encrypted''"
    "hashField ?email = ''email_hash''"
    by (simp_all add: field_config_def get_prop_def)
  have first: "?first \<in> set ?configs" "get_prop ?data (fieldName ?first) = Null"
    "columns ?first = [''firstName'', ''firstName_encrypted'', ''firstName_hash'']"
    by (simp_all add: field_config_def get_prop_def columns_def)
  have role: "\<forall>c \<in> set ?configs. ''role'' \<notin> set (columns c)"
    by (simp add: field_config_def columns_def)
  from write_then_read [OF user_configs ok enc]
  obtain stored where tr: "transformDataForStorage mock_env ''User'' ?data = Inr stored"
    and written: "\<forall>c \<in> set ?configs. \<forall>s. get_prop ?data (fieldName c) = Str s \<longrightarrow>
           stored (fieldName c) = None
         \<and> (\<exists>ct. encrypt_value mock_env c (Str s) = Inr ct
                \<and> stored (encryptedField c) = Some (Str ct)
                \<and> (decrypt_value mock_env c (Str ct) = Inr s \<longrightarrow>
                     transformRecordForReading mock_env ''User'' stored (fieldName c) = Some (Str s)))
         \<and> (\<exists>h. generateDeterministicHash (Str s) = Inr h
                \<and> stored (hashField c) = Some (Str h))"
    and skipped: "\<forall>c \<in> set ?configs.
           get_prop ?data (fieldName c) = Undefined \<or> get_prop ?data (fieldName c) = Null \<longrightarrow>
           (\<forall>x \<in> set (columns c). stored x = ?data x)"
    and other: "\<forall>x. (\<forall>c \<in> set ?configs. x \<notin> set (columns c)) \<longrightarrow> stored x = ?data x"
    by blast
  from written email(1,2) obtain ct h where
    e1: "stored (fieldName ?email) = None"
    and e2: "encrypt_value mock_env ?email (Str (js ''john.doe@example.com'')) = Inr ct"
    and e3: "stored (encryptedField ?email) = Some (Str ct)"
    and e4: "decrypt_value mock_env ?email (Str ct) = Inr (js ''john.doe@example.com'') \<longrightarrow>
        transformRecordForReading mock_env ''User'' stored (fieldName ?email)
          = Some (Str (js ''john.doe@example.com''))"
    and e5: "generateDeterministicHash (Str (js ''john.doe@example.com'')) = Inr h"
    and e6: "stored (hashField ?email) = Some (Str h)"
    by blast
  have ct: "ct = mock_prefix @ base64_encode (utf8_encode (js ''john.doe@example.com''))"
    using e2 mock_mode_inverse(1) [OF mock ne, of ?email] by simp
  have rd: "transformRecordForReading mock_env ''User'' stored ''email''
      = Some (Str (js ''john.doe@example.com''))"
    using e4 mock_mode_inverse(2) [OF mock ne wf, of ?email] by (simp add: ct email(3))
  have f: "stored ''firstName'' = Some Null" "stored ''firstName_encrypted'' = None"
    "stored ''firstName_hash'' = None"
    using skipped first by simp_all
  have r: "stored ''role'' = Some (Str (js ''CLIENT''))"
    using other role by simp
  have "stored ''email'' = None" using e1 by (simp add: email(3))
  moreover have "stored ''email_encrypted''
      = Some (Str (mock_prefix @ base64_encode (utf8_encode (js ''john.doe@example.com''))))"
    using e3 by (simp add: email(4) ct)
  moreover have "\<exists>h. generateDeterministicHash (Str (js ''john.doe@example.com'')) = Inr h
      \<and> stored ''email_hash'' = Some (Str h)"
    using e5 e6 by (simp add: email(5))
  ultimately show ?thesis
    using user_configs tr rd f r by blast
qed

text \<open>
  C1 at a failing input. Outside mock mode, with an \<open>encryptData\<close> that throws, a write
  of \<open>{email: "john.doe@example.com"}\<close> to the model \<open>User\<close> does not fail: the
  transformed record has the plaintext itself in \<open>email_encrypted\<close>, and each of the five
  write handlers passes that record on to the persistence backend.
\<close>

theorem plaintext_stored_when_encryption_throws:
  "\<exists>stored.
      transformDataForStorage failing_env ''User''
        [''email'' \<mapsto> Str (js ''john.doe@example.com'')] = Inr stored
    \<and> stored ''email'' = None
    \<and> stored ''email_encrypted'' = Some (Str (js ''john.doe@example.com''))
    \<and> create failing_env ''User'' q1 (Some [''email'' \<mapsto> Str (js ''john.doe@example.com'')])
        = map_sum id (transformDataForReading failing_env ''User'') (q1 (Some stored))
    \<and> update failing_env ''User'' q1 (Some [''email'' \<mapsto> Str (js ''john.doe@example.com'')])
        = map_sum id (transformDataForReading failing_env ''User'') (q1 (Some stored))
    \<and> upsert failing_env ''User'' q2
          (Some [''email'' \<mapsto> Str (js ''john.doe@example.com'')],
           Some [''email'' \<mapsto> Str (js ''john.doe@example.com'')])
        = map_sum id (transformDataForReading failing_env ''User'')
            (q2 (Some stored, Some stored))
    \<and> createMany failing_env ''User'' q3
          (Some (Inr [[''email'' \<mapsto> Str (js ''john.doe@example.com'')]]))
        = q3 (Some (Inr [stored]))
    \<and> updateMany failing_env ''User'' q4
          (Some [''email'' \<mapsto> Str (js ''john.doe@example.com'')])
        = q4 (Some stored)"
proof -
  let ?data = "[''email'' \<mapsto> Str (js ''john.doe@example.com'')]"
  let ?email = "field_config ''email'' ''/app/encryption/email-key''"
  have ne: "js ''john.doe@example.com'' \<noteq> []" by (simp add: js_def)
  have ok: "\<forall>c \<in> set [field_config ''firstName'' ''/app/encryption/names-key'',
      field_config ''lastName'' ''/app/encryption/names-key'',
      field_config ''email'' ''/app/encryption/email-key'',
      field_config ''phone'' ''/app/encryption/phone-key'',
      field_config ''phoneVerificationCode'' ''/app/encryption/temp-key''].
        storable (get_prop ?data (fieldName c))"
    by (rule user_storable [where s = "js ''john.doe@example.com''"])
      (simp_all add: get_prop_def ne)
  have email: "?email \<in> set [field_config ''firstName'' ''/app/encryption/names-key'',
      field_config ''lastName'' ''/app/encryption/names-key'',
      field_config ''email'' ''/app/encryption/email-key'',
      field_config ''phone'' ''/app/encryption/phone-key'',
      field_config ''phoneVerificationCode'' ''/app/encryption/temp-key'']"
    "get_prop ?data (fieldName ?email) = Str (js ''john.doe@example.com'')"
    "fieldName ?email = ''email''" "encryptedField ?email = ''email_encrypted''"
    by (simp_all add: field_config_def get_prop_def)
  have fails: "encrypt_value failing_env ?email (Str (js ''john.doe@example.com''))
      = Inl (EncryptionError (Message ''Encryption failed''))"
    by (simp add: encrypt_value_def failing_env_def)
  from plaintext_fallback [OF user_configs ok email(1,2) fails]
  obtain stored where tr: "transformDataForStorage failing_env ''User'' ?data = Inr stored"
    and s1: "stored ''email'' = None"
    and s2: "stored ''email_encrypted'' = Some (Str (js ''john.doe@example.com''))"
    unfolding email(3,4) by blast
  have "create failing_env ''User'' q1 (Some ?data)
        = map_sum id (transformDataForReading failing_env ''User'') (q1 (Some stored))"
    by (simp add: create_def tr)
  moreover have "update failing_env ''User'' q1 (Some ?data)
        = map_sum id (transformDataForReading failing_env ''User'') (q1 (Some stored))"
    by (simp add: update_def create_def tr)
  moreover have "upsert failing_env ''User'' q2 (Some ?data, Some ?data)
        = map_sum id (transformDataForReading failing_env ''User'')
            (q2 (Some stored, Some stored))"
    by (simp add: upsert_def tr)
  moreover have "createMany failing_env ''User'' q3 (Some (Inr [?data]))
        = q3 (Some (Inr [stored]))"
    by (simp add: createMany_def tr)
  moreover have "updateMany failing_env ''User'' q4 (Some ?data) = q4 (Some stored)"
    by (simp add: updateMany_def tr)
  ultimately show ?thesis using tr s1 s2 by blast
qed

end
